theory Spec2Isabelle
  imports Main "HOL-Library.Char_ord" "HOL-Library.List_Lexorder"
    "HOL-Library.Product_Lexorder" "HOL-Library.Word"
begin

section \<open>Python values and exceptions\<close>

text \<open>
  The exceptions that the modelled code of \<^verbatim>\<open>command.py\<close> and
  \<^verbatim>\<open>datasource_loader.py\<close> can raise. \<open>LoadFailed\<close> carries the reason given in
  its message. \<open>KeyboardInterrupt\<close> stands for the exceptions that derive from
  \<^verbatim>\<open>BaseException\<close> but not from \<^verbatim>\<open>Exception\<close>.
\<close>

datatype load_failure = EmptyString | OutsideBaseDirectory | NonExistentFile | NotADirectory

datatype exc =
    ZeroDivisionError
  | TypeError
  | ValueError
  | AttributeError
  | FileNotFoundError
  | FileExistsError
  | IsADirectoryError
  | NotADirectoryError
  | ParseError
  | LoadFailed load_failure
  | OtherException string
  | KeyboardInterrupt

fun is_Exception :: "exc \<Rightarrow> bool" where
  "is_Exception KeyboardInterrupt = False"
| "is_Exception _ = True"

section \<open>The triple store\<close>

text \<open>
  Modelled from the spec: the triple store backend (rdflib behind \<^verbatim>\<open>Data\<close>), which
  is not among the sources. A triple is three opaque strings, a context is a named set
  of triples and the store maps context identifiers to contexts; a context comes into
  being with the first triple inserted into it and may be empty. The store is kept as an
  association list in the order in which \<^verbatim>\<open>contexts()\<close> enumerates it, each context
  holding its triples without duplicates. A quad is a triple with the identifier of its
  context, as \<^verbatim>\<open>addN\<close> takes it.
\<close>

type_synonym triple = "string \<times> string \<times> string"
type_synonym quad = "triple \<times> string"
type_synonym store = "(string \<times> triple list) list"

fun add_triple :: "string \<Rightarrow> triple \<Rightarrow> store \<Rightarrow> store" where
  "add_triple c t [] = [(c, [t])]"
| "add_triple c t ((c', ts) # rest) =
     (if c = c' then (c', List.insert t ts) # rest else (c', ts) # add_triple c t rest)"

fun addN :: "quad list \<Rightarrow> store \<Rightarrow> store" where
  "addN [] st = st"
| "addN ((t, c) # qs) st = addN qs (add_triple c t st)"

definition triples_of :: "store \<Rightarrow> string \<Rightarrow> triple set" where
  "triples_of st c = (case map_of st c of None \<Rightarrow> {} | Some ts \<Rightarrow> set ts)"

section \<open>\<^verbatim>\<open>_BatchAddGraph\<close>\<close>

text \<open>
  \<^verbatim>\<open>
  class _BatchAddGraph(object):
      def __init__(self, graph, batchsize=1000, *args, **kwargs):
          self.graph = graph
          self.g = (graph,)
          self.batchsize = batchsize
          self.reset()
      def reset(self):
          self.batch = []
          self.count = 0
      def add(self, triple):
          if self.count > 0 and self.count % self.batchsize == 0:
              self.graph.addN(self.batch)
              self.batch = []
          self.count += 1
          self.batch.append(triple + self.g)
      def __enter__(self):
          self.reset()
          return self
      def __exit__(self, *exc):
          if exc[0] is None:
              self.graph.addN(self.batch)
  \<close>
  The wrapped graph is a context of the store, named by its identifier; the store it
  writes to is passed through every operation. Python's \<^verbatim>\<open>%\<close> on integers is the
  floored remainder, which is \<open>mod\<close> on \<open>int\<close>, and raises on a zero divisor.
\<close>

record batch_add_graph =
  graph :: string
  batchsize :: int
  batch :: "quad list"
  count :: int

definition reset :: "batch_add_graph \<Rightarrow> batch_add_graph" where
  "reset bw = bw\<lparr>batch := [], count := 0\<rparr>"

definition BatchAddGraph :: "string \<Rightarrow> int \<Rightarrow> batch_add_graph" where
  "BatchAddGraph g b = reset \<lparr>graph = g, batchsize = b, batch = [], count = 0\<rparr>"

definition add :: "batch_add_graph \<Rightarrow> triple \<Rightarrow> store \<Rightarrow> exc + batch_add_graph \<times> store" where
  "add bw t st =
     (if count bw > 0 \<and> batchsize bw = 0 then Inl ZeroDivisionError
      else
        let (bw1, st1) =
              (if count bw > 0 \<and> count bw mod batchsize bw = 0
               then (bw\<lparr>batch := []\<rparr>, addN (batch bw) st)
               else (bw, st));
            bw2 = bw1\<lparr>count := count bw1 + 1\<rparr>
        in Inr (bw2\<lparr>batch := batch bw2 @ [(t, graph bw2)]\<rparr>, st1))"

definition enter :: "batch_add_graph \<Rightarrow> batch_add_graph" where
  "enter bw = reset bw"

definition exit :: "batch_add_graph \<Rightarrow> exc option \<Rightarrow> store \<Rightarrow> store" where
  "exit bw e st = (if e = None then addN (batch bw) st else st)"

text \<open>
  A sequence of \<^verbatim>\<open>add\<close> calls inside the scope. The first call that raises ends the
  sequence; the writer and the store are then as the calls before it left them.
\<close>

fun feed :: "batch_add_graph \<Rightarrow> triple list \<Rightarrow> store \<Rightarrow> exc option \<times> batch_add_graph \<times> store" where
  "feed bw [] st = (None, bw, st)"
| "feed bw (t # ts) st =
     (case add bw t st of
        Inl e \<Rightarrow> (Some e, bw, st)
      | Inr (bw', st') \<Rightarrow> feed bw' ts st')"

section \<open>Strings and paths\<close>

text \<open>
  A string is the list of its characters, each a code point below 256.
  \<^verbatim>\<open>str.strip()\<close> removes leading and trailing whitespace; the whitespace characters
  among these code points are 9 to 13, 28 to 32, 133 (U+0085) and 160 (U+00A0).
  \<^verbatim>\<open>str.split(sep)\<close> with a one-character separator cuts at every occurrence of it
  and keeps empty fields.
\<close>

definition isspace :: "char \<Rightarrow> bool" where
  "isspace c =
     (let n = (of_char c :: nat)
      in (9 \<le> n \<and> n \<le> 13) \<or> (28 \<le> n \<and> n \<le> 32) \<or> n = 133 \<or> n = 160)"

definition strip :: "string \<Rightarrow> string" where
  "strip s = rev (dropWhile isspace (rev (dropWhile isspace s)))"

fun split_on :: "char \<Rightarrow> string \<Rightarrow> string list" where
  "split_on sep [] = [[]]"
| "split_on sep (x # xs) =
     (if x = sep then [] # split_on sep xs
      else (case split_on sep xs of [] \<Rightarrow> [[x]] | w # ws \<Rightarrow> (x # w) # ws))"

definition startswith :: "string \<Rightarrow> string \<Rightarrow> bool" where
  "startswith s p = (take (length p) s = p)"

text \<open>The functions of \<^verbatim>\<open>os.path\<close> (posixpath) that the code imports.\<close>

definition isabs :: "string \<Rightarrow> bool" where
  "isabs s = startswith s ''/''"

definition pth_join :: "string \<Rightarrow> string \<Rightarrow> string" where
  "pth_join a b =
     (if startswith b ''/'' then b
      else if a = [] \<or> last a = CHR ''/'' then a @ b
      else a @ ''/'' @ b)"

text \<open>
  \<^verbatim>\<open>normpath\<close> walks the components of an absolute path: empty components and
  \<^verbatim>\<open>.\<close> are dropped, \<^verbatim>\<open>..\<close> removes the component before it and stays at the
  root. \<^verbatim>\<open>abspath\<close> joins a relative path to the current directory first. The result
  is kept as the list of its components.
\<close>

definition norm_step :: "string list \<Rightarrow> string \<Rightarrow> string list" where
  "norm_step new_comps c =
     (if c = [] \<or> c = ''.'' then new_comps
      else if c \<noteq> ''..'' then new_comps @ [c]
      else butlast new_comps)"

definition abs_comps :: "string \<Rightarrow> string \<Rightarrow> string list" where
  "abs_comps wd p = foldl norm_step [] (split_on CHR ''/'' (if isabs p then p else pth_join wd p))"

fun join_comps :: "string list \<Rightarrow> string" where
  "join_comps [] = []"
| "join_comps [c] = c"
| "join_comps (c # cs) = c @ ''/'' @ join_comps cs"

fun commonprefix :: "string list \<Rightarrow> string list \<Rightarrow> string list" where
  "commonprefix (x # xs) (y # ys) = (if x = y then x # commonprefix xs ys else [])"
| "commonprefix _ _ = []"

definition relpath_in :: "string \<Rightarrow> string \<Rightarrow> string \<Rightarrow> string" where
  "relpath_in wd path start =
     (let start_list = abs_comps wd start;
          path_list = abs_comps wd path;
          i = length (commonprefix start_list path_list);
          rel_list = replicate (length start_list - i) ''..'' @ drop i path_list
      in if rel_list = [] then ''.'' else join_comps rel_list)"

section \<open>The file system\<close>

text \<open>
  A file system without symbolic links: the current directory of the process and the
  nodes below the root, each under the list of components of its absolute normalised
  path. The root is the empty list and is always a directory. Every operation resolves
  the path string it is given as the operating system does, so two spellings of one
  path name one node. On such a file system \<^verbatim>\<open>realpath\<close> is \<^verbatim>\<open>abspath\<close>; a
  component \<^verbatim>\<open>..\<close> is resolved on the path string, without looking at the node
  it steps out of.
\<close>

datatype node = Dir | File string

record filesystem =
  cwd :: string
  nodes :: "string list \<Rightarrow> node option"

definition node_at :: "filesystem \<Rightarrow> string list \<Rightarrow> node option" where
  "node_at fs k = (if k = [] then Some Dir else nodes fs k)"

definition resolve :: "filesystem \<Rightarrow> string \<Rightarrow> string list" where
  "resolve fs p = abs_comps (cwd fs) p"

definition realpath :: "filesystem \<Rightarrow> string \<Rightarrow> string" where
  "realpath fs p = ''/'' @ join_comps (resolve fs p)"

definition relpath :: "filesystem \<Rightarrow> string \<Rightarrow> string \<Rightarrow> string" where
  "relpath fs path start = relpath_in (cwd fs) path start"

definition exists :: "filesystem \<Rightarrow> string \<Rightarrow> bool" where
  "exists fs p = (node_at fs (resolve fs p) \<noteq> None)"

definition isdir :: "filesystem \<Rightarrow> string \<Rightarrow> bool" where
  "isdir fs p = (node_at fs (resolve fs p) = Some Dir)"

definition parent_error :: "filesystem \<Rightarrow> string list \<Rightarrow> exc option" where
  "parent_error fs k =
     (case node_at fs (butlast k) of
        None \<Rightarrow> Some FileNotFoundError
      | Some (File _) \<Rightarrow> Some NotADirectoryError
      | Some Dir \<Rightarrow> None)"

definition open_read :: "filesystem \<Rightarrow> string \<Rightarrow> exc + string" where
  "open_read fs p =
     (case node_at fs (resolve fs p) of
        None \<Rightarrow> Inl FileNotFoundError
      | Some Dir \<Rightarrow> Inl IsADirectoryError
      | Some (File s) \<Rightarrow> Inr s)"

text \<open>Opening a file for writing, writing the whole text and closing it.\<close>

definition open_write :: "filesystem \<Rightarrow> string \<Rightarrow> string \<Rightarrow> exc + filesystem" where
  "open_write fs p s =
     (let k = resolve fs p in
      if node_at fs k = Some Dir then Inl IsADirectoryError
      else (case parent_error fs k of
              Some e \<Rightarrow> Inl e
            | None \<Rightarrow> Inr (fs\<lparr>nodes := (nodes fs)(k \<mapsto> File s)\<rparr>)))"

definition mkdir :: "filesystem \<Rightarrow> string \<Rightarrow> exc + filesystem" where
  "mkdir fs p =
     (let k = resolve fs p in
      if node_at fs k \<noteq> None then Inl FileExistsError
      else (case parent_error fs k of
              Some e \<Rightarrow> Inl e
            | None \<Rightarrow> Inr (fs\<lparr>nodes := (nodes fs)(k \<mapsto> Dir)\<rparr>)))"

definition is_file :: "node option \<Rightarrow> bool" where
  "is_file n = (case n of Some (File _) \<Rightarrow> True | _ \<Rightarrow> False)"

definition makedirs :: "filesystem \<Rightarrow> string \<Rightarrow> exc + filesystem" where
  "makedirs fs p =
     (let k = resolve fs p in
      if node_at fs k \<noteq> None then Inl FileExistsError
      else if list_ex (\<lambda>i. is_file (node_at fs (take i k))) [0..<length k] then Inl NotADirectoryError
      else Inr (fs\<lparr>nodes := (\<lambda>q. if q \<noteq> [] \<and> take (length q) k = q \<and> nodes fs q = None
                                   then Some Dir else nodes fs q)\<rparr>))"

definition rmtree :: "filesystem \<Rightarrow> string \<Rightarrow> exc + filesystem" where
  "rmtree fs p =
     (let k = resolve fs p in
      case node_at fs k of
        None \<Rightarrow> Inl FileNotFoundError
      | Some (File _) \<Rightarrow> Inl NotADirectoryError
      | Some Dir \<Rightarrow> Inr (fs\<lparr>nodes := (\<lambda>q. if take (length k) q = k then None else nodes fs q)\<rparr>))"

text \<open>
  Iterating over a file opened in text mode yields its lines. With universal newlines a
  line ends at a line feed, at a carriage return followed by a line feed, or at a lone
  carriage return, and each of them is handed over as a line feed; the text after the
  last terminator is a line without one.
\<close>

fun lines_from :: "string \<Rightarrow> string \<Rightarrow> string list" where
  "lines_from acc [] = (if acc = [] then [] else [rev acc])"
| "lines_from acc (c # cs) =
     (if c = CHR 0x0A then rev (CHR 0x0A # acc) # lines_from [] cs
      else if c = CHR 0x0D
      then rev (CHR 0x0A # acc) #
             (case cs of
                [] \<Rightarrow> []
              | d # ds \<Rightarrow> if d = CHR 0x0A then lines_from [] ds else lines_from [] cs)
      else lines_from (c # acc) cs)"

definition readlines :: "string \<Rightarrow> string list" where
  "readlines s = lines_from [] s"

section \<open>\<^verbatim>\<open>DataSourceDirLoader\<close>\<close>

text \<open>
  \<^verbatim>\<open>
  def __init__(self, base_directory=None):
      if base_directory:
          self.base_directory = realpath(base_directory)

  def __call__(self, data_source):
      s = self.load(data_source)
      if not s:
          raise LoadFailed(data_source, self, 'Loader returned an empty string')
      if not isabs(s):
          s = pth_join(self.base_directory, s)
      rpath = realpath(s)
      if not rpath.startswith(self.base_directory):
          raise LoadFailed(data_source, self, 'Loader returned a file path outside of ...')
      if not exists(rpath):
          raise LoadFailed(data_source, self, 'Loader returned a non-existant file ...')
      if not isdir(rpath):
          raise LoadFailed(data_source, self, 'Loader did not return a directory, ...')
      return rpath
  \<close>
  The argument of the constructor is any Python value; the attribute
  \<^verbatim>\<open>base_directory\<close> exists only after a truthy argument, and reading it otherwise
  raises \<^verbatim>\<open>AttributeError\<close>. \<^verbatim>\<open>realpath\<close> of a value that is not a path raises
  \<^verbatim>\<open>TypeError\<close>. The string \<open>s\<close> is what the subclass's \<^verbatim>\<open>load\<close> returned.
\<close>

datatype pyarg = PyNone | PyStr string | PyInt int | PyBool bool

fun truthy :: "pyarg \<Rightarrow> bool" where
  "truthy PyNone = False"
| "truthy (PyStr s) = (s \<noteq> [])"
| "truthy (PyInt i) = (i \<noteq> 0)"
| "truthy (PyBool b) = b"

record data_source_dir_loader =
  base_directory :: "string option"

definition DataSourceDirLoader :: "filesystem \<Rightarrow> pyarg \<Rightarrow> exc + data_source_dir_loader" where
  "DataSourceDirLoader fs base =
     (if truthy base
      then (case base of
              PyStr b \<Rightarrow> Inr \<lparr>base_directory = Some (realpath fs b)\<rparr>
            | _ \<Rightarrow> Inl TypeError)
      else Inr \<lparr>base_directory = None\<rparr>)"

definition call_loader :: "data_source_dir_loader \<Rightarrow> filesystem \<Rightarrow> string \<Rightarrow> exc + string" where
  "call_loader self fs s =
     (if s = [] then Inl (LoadFailed EmptyString)
      else
        case (if \<not> isabs s
              then (case base_directory self of
                      None \<Rightarrow> Inl AttributeError
                    | Some b \<Rightarrow> Inr (pth_join b s))
              else Inr s) of
          Inl e \<Rightarrow> Inl e
        | Inr s' \<Rightarrow>
            let rpath = realpath fs s' in
            (case base_directory self of
               None \<Rightarrow> Inl AttributeError
             | Some b \<Rightarrow>
                 if \<not> startswith rpath b then Inl (LoadFailed OutsideBaseDirectory)
                 else if \<not> exists fs rpath then Inl (LoadFailed NonExistentFile)
                 else if \<not> isdir fs rpath then Inl (LoadFailed NotADirectory)
                 else Inr rpath))"

text \<open>Constructing a loader on a base directory and calling it: the scoped resolution.\<close>

definition resolve_in :: "filesystem \<Rightarrow> pyarg \<Rightarrow> string \<Rightarrow> exc + string" where
  "resolve_in fs base s =
     (case DataSourceDirLoader fs base of
        Inl e \<Rightarrow> Inl e
      | Inr self \<Rightarrow> call_loader self fs s)"

section \<open>The command object \<^verbatim>\<open>POW\<close>\<close>

text \<open>
  The instance variables of \<^verbatim>\<open>POW\<close> that name paths, and the properties computed
  from them:
  \<^verbatim>\<open>
  def powdir(self):
      if isabs(self._powdir):
          return self._powdir
      return pth_join(self.basedir, self._powdir)
  def config_file(self):
      if isabs(self._config_file):
          return self._config_file
      return pth_join(self.powdir, self._config_file)
  \<close>
\<close>

record pow =
  basedir :: string
  powdir_attr :: string
  config_file_attr :: string

definition powdir :: "pow \<Rightarrow> string" where
  "powdir self =
     (if isabs (powdir_attr self) then powdir_attr self
      else pth_join (basedir self) (powdir_attr self))"

definition config_file :: "pow \<Rightarrow> string" where
  "config_file self =
     (if isabs (config_file_attr self) then config_file_attr self
      else pth_join (powdir self) (config_file_attr self))"

section \<open>Serialising the contexts\<close>

text \<open>
  Python's \<^verbatim>\<open>+\<close> on the two kinds of value that meet in
  \<^verbatim>\<open>hs + '-' + i + '.nt'\<close>: it concatenates strings, adds integers and raises
  \<^verbatim>\<open>TypeError\<close> on a string and an integer.
\<close>

datatype pyval = PStr string | PInt int

fun py_add :: "pyval \<Rightarrow> pyval \<Rightarrow> exc + pyval" where
  "py_add (PStr a) (PStr b) = Inr (PStr (a @ b))"
| "py_add (PInt a) (PInt b) = Inr (PInt (a + b))"
| "py_add _ _ = Inl TypeError"

text \<open>
  The collaborators that are not files: SHA-256 (from the encoded identifier to the 32
  bytes of the digest), and the N-Triples serialiser and parser of rdflib. The parser
  reads a document and hands the triples it meets to the sink one by one; \<open>nt_parse\<close>
  gives the triples it hands over and whether it reached the end of the document
  (\<open>False\<close>: it raised on a malformed line after them).
\<close>

record env =
  sha256 :: "string \<Rightarrow> 8 word list"
  nt_serialize :: "triple list \<Rightarrow> string"
  nt_parse :: "string \<Rightarrow> triple list \<times> bool"

definition hexdigit :: "nat \<Rightarrow> char" where
  "hexdigit n = ''0123456789abcdef'' ! n"

definition hexdigest :: "8 word list \<Rightarrow> string" where
  "hexdigest bs = concat (map (\<lambda>b. [hexdigit (unat b div 16), hexdigit (unat b mod 16)]) bs)"

text \<open>
  Modelled from the spec: the repository provider, whose implementation is not among the
  sources. It tells whether the working tree is dirty, and \<^verbatim>\<open>reset()\<close> may change
  the files in any way. Its \<^verbatim>\<open>remove\<close> and \<^verbatim>\<open>add\<close> stage paths in the
  provider's own index and leave the files alone; the paths given to \<^verbatim>\<open>add\<close> are
  the result of the serialisation.
\<close>

record repository_provider =
  is_dirty :: bool
  repo_reset :: "filesystem \<Rightarrow> filesystem"

text \<open>
  \<^verbatim>\<open>
  fname = pth_join(graphs_base, hs + '.nt')
  i = 1
  while exists(fname):
      fname = pth_join(graphs_base, hs + '-' + i + '.nt')
      i += 1
  \<close>
\<close>

function find_fname :: "filesystem \<Rightarrow> string \<Rightarrow> string \<Rightarrow> string \<Rightarrow> int \<Rightarrow> exc + string" where
  "find_fname fs graphs_base hs fname i =
     (if exists fs fname
      then (case py_add (PStr hs) (PStr ''-'') of
              Inl e \<Rightarrow> Inl e
            | Inr v1 \<Rightarrow>
               (case py_add v1 (PInt i) of
                  Inl e \<Rightarrow> Inl e
                | Inr v2 \<Rightarrow>
                   (case py_add v2 (PStr ''.nt'') of
                      Inl e \<Rightarrow> Inl e
                    | Inr (PInt n) \<Rightarrow> Inl TypeError
                    | Inr (PStr n) \<Rightarrow> find_fname fs graphs_base hs (pth_join graphs_base n) (i + 1))))
      else Inr fname)"
  by pat_completeness auto
termination
  by (relation "{}") auto

text \<open>
  \<^verbatim>\<open>
  for x in g.contexts():
      ident = x.identifier
      hs = hashlib.sha256(ident.encode()).hexdigest()
      fname = ...
      files.append(fname)
      serializer = plugin.get('nt', Serializer)(sorted(x))
      with open(fname, 'wb') as gfile:
          serializer.serialize(gfile)
      ctx_data.append((relpath(fname, graphs_base), ident))
  \<close>
\<close>

fun serialize_contexts ::
  "env \<Rightarrow> string \<Rightarrow> store \<Rightarrow> string list \<times> (string \<times> string) list \<Rightarrow> filesystem
     \<Rightarrow> (exc + string list \<times> (string \<times> string) list) \<times> filesystem" where
  "serialize_contexts ev graphs_base [] (files, ctx_data) fs = (Inr (files, ctx_data), fs)"
| "serialize_contexts ev graphs_base ((ident, x) # g) (files, ctx_data) fs =
     (let hs = hexdigest (sha256 ev ident) in
      case find_fname fs graphs_base hs (pth_join graphs_base (hs @ ''.nt'')) 1 of
        Inl e \<Rightarrow> (Inl e, fs)
      | Inr fname \<Rightarrow>
         (case open_write fs fname (nt_serialize ev (sort x)) of
            Inl e \<Rightarrow> (Inl e, fs)
          | Inr fs' \<Rightarrow>
              serialize_contexts ev graphs_base g
                (files @ [fname], ctx_data @ [(relpath fs' fname graphs_base, ident)]) fs'))"

text \<open>\<^verbatim>\<open>print(*l, file=index_file)\<close> for a pair \<open>l\<close>: the two fields, a space between
  them, and a newline.\<close>

definition index_line :: "string \<times> string \<Rightarrow> string" where
  "index_line l = fst l @ '' '' @ snd l @ [CHR 0x0A]"

text \<open>
  \<^verbatim>\<open>
  def _serialize_graphs(self):
      g = self._conf()['rdf.graph']
      repo = self.repository_provider
      repo.base = self.powdir
      graphs_base = pth_join(self.powdir, 'graphs')
      if repo.is_dirty:
          repo.reset()
      if exists(graphs_base):
          repo.remove(['graphs'], recursive=True)
          shutil.rmtree(graphs_base)
      mkdir(graphs_base)
      files = []
      ctx_data = []
      for x in g.contexts(): ...
      index_fname = pth_join(graphs_base, 'index')
      with open(index_fname, 'w') as index_file:
          for l in sorted(ctx_data):
              print(*l, file=index_file)
      files.append(index_fname)
      repo.add([relpath(f, self.powdir) for f in files] + [relpath(self.config_file, self.powdir),
                                                           'graphs'])
  \<close>
\<close>

definition serialize_graphs ::
  "pow \<Rightarrow> env \<Rightarrow> repository_provider \<Rightarrow> store \<Rightarrow> filesystem \<Rightarrow> (exc + string list) \<times> filesystem" where
  "serialize_graphs self ev repo g fs0 =
     (let graphs_base = pth_join (powdir self) ''graphs'';
          fs1 = (if is_dirty repo then repo_reset repo fs0 else fs0)
      in case (if exists fs1 graphs_base then rmtree fs1 graphs_base else Inr fs1) of
           Inl e \<Rightarrow> (Inl e, fs1)
         | Inr fs2 \<Rightarrow>
            (case mkdir fs2 graphs_base of
               Inl e \<Rightarrow> (Inl e, fs2)
             | Inr fs3 \<Rightarrow>
                (case serialize_contexts ev graphs_base g ([], []) fs3 of
                   (Inl e, fs4) \<Rightarrow> (Inl e, fs4)
                 | (Inr (files, ctx_data), fs4) \<Rightarrow>
                    (let index_fname = pth_join graphs_base ''index'' in
                     case open_write fs4 index_fname (concat (map index_line (sort ctx_data))) of
                       Inl e \<Rightarrow> (Inl e, fs4)
                     | Inr fs5 \<Rightarrow>
                        (Inr (map (\<lambda>f. relpath fs5 f (powdir self)) (files @ [index_fname])
                                @ [relpath fs5 (config_file self) (powdir self), ''graphs'']),
                         fs5)))))"

section \<open>Loading the contexts\<close>

text \<open>\<^verbatim>\<open>fname, ctx = l.strip().split(' ')\<close>: unpacking raises \<^verbatim>\<open>ValueError\<close> unless
  the split gives exactly two fields.\<close>

definition parse_index_line :: "string \<Rightarrow> exc + string \<times> string" where
  "parse_index_line l =
     (case split_on CHR '' '' (strip l) of
        [fname, ctx] \<Rightarrow> Inr (fname, ctx)
      | _ \<Rightarrow> Inl ValueError)"

text \<open>\<^verbatim>\<open>parser.parse(create_input_source(f), g)\<close> with the batch writer \<open>g\<close> as sink.\<close>

definition parse_into ::
  "env \<Rightarrow> string \<Rightarrow> batch_add_graph \<Rightarrow> store \<Rightarrow> exc option \<times> batch_add_graph \<times> store" where
  "parse_into ev doc g st =
     (case feed g (fst (nt_parse ev doc)) st of
        (Some e, g', st') \<Rightarrow> (Some e, g', st')
      | (None, g', st') \<Rightarrow> (if snd (nt_parse ev doc) then None else Some ParseError, g', st'))"

text \<open>
  \<^verbatim>\<open>
  for l in index_file:
      fname, ctx = l.strip().split(' ')
      parser = plugin.get('nt', Parser)()
      with open(pth_join(self.powdir, 'graphs', fname), 'rb') as f, \
              _BatchAddGraph(dest.get_context(ctx), batchsize=4000) as g:
          parser.parse(create_input_source(f), g)
      progress.update(1)
      triples_read += g.count
      trip_prog.update(g.count)
  \<close>
  The progress reporters only display. An exception leaves the loop with the store as
  it is at that moment.
\<close>

fun load_entries ::
  "pow \<Rightarrow> env \<Rightarrow> filesystem \<Rightarrow> string list \<Rightarrow> int \<Rightarrow> store \<Rightarrow> (exc + int) \<times> store" where
  "load_entries self ev fs [] triples_read dest = (Inr triples_read, dest)"
| "load_entries self ev fs (l # ls) triples_read dest =
     (case parse_index_line l of
        Inl e \<Rightarrow> (Inl e, dest)
      | Inr (fname, ctx) \<Rightarrow>
         (case open_read fs (pth_join (pth_join (powdir self) ''graphs'') fname) of
            Inl e \<Rightarrow> (Inl e, dest)
          | Inr f \<Rightarrow>
             (case parse_into ev f (enter (BatchAddGraph ctx 4000)) dest of
                (Some e, g, dest') \<Rightarrow> (Inl e, exit g (Some e) dest')
              | (None, g, dest') \<Rightarrow>
                  load_entries self ev fs ls (triples_read + count g) (exit g None dest'))))"

text \<open>
  Modelled from the spec: the transactional scope that the store backend supplies
  (sections 4.4 and 5); neither the \<^verbatim>\<open>transaction\<close> package nor the store is among
  the sources. The database behind \<^verbatim>\<open>self._conf()['rdf.graph']\<close> is the store as it
  is now, the store as of the last commit, and whether the store takes part in
  transactions. \<^verbatim>\<open>with transaction.manager:\<close> begins a transaction on entry, which
  aborts the one in progress; it commits when the block ends normally and aborts when an
  exception leaves it, and the exception goes on. An abort puts a store that takes part
  back to its last commit and leaves any other store as it is.
\<close>

record database =
  graph_store :: store
  last_commit :: store
  joins_transaction :: bool

definition tx_abort :: "database \<Rightarrow> database" where
  "tx_abort db = (if joins_transaction db then db\<lparr>graph_store := last_commit db\<rparr> else db)"

definition tx_commit :: "database \<Rightarrow> database" where
  "tx_commit db = (if joins_transaction db then db\<lparr>last_commit := graph_store db\<rparr> else db)"

definition tx_begin :: "database \<Rightarrow> database" where
  "tx_begin db = tx_abort db"

definition with_transaction ::
  "(store \<Rightarrow> (exc + 'a) \<times> store) \<Rightarrow> database \<Rightarrow> (exc + 'a) \<times> database" where
  "with_transaction body db =
     (let db0 = tx_begin db in
      case body (graph_store db0) of
        (Inl e, st') \<Rightarrow> (Inl e, tx_abort (db0\<lparr>graph_store := st'\<rparr>))
      | (Inr v, st') \<Rightarrow> (Inr v, tx_commit (db0\<lparr>graph_store := st'\<rparr>)))"

text \<open>
  \<^verbatim>\<open>
  def _load_all_graphs(self, progress, trip_prog):
      idx_fname = pth_join(self.powdir, 'graphs', 'index')
      triples_read = 0
      if exists(idx_fname):
          dest = self._conf()['rdf.graph']
          with open(idx_fname) as index_file:
              ...
              with transaction.manager:
                  for l in index_file: ...
      progress.write('Loaded {:,} triples'.format(triples_read))
  \<close>
  The result is the number of triples reported at the end; \<open>dest\<close> is the database
  that \<^verbatim>\<open>self._conf()\<close> gives.
\<close>

definition load_all_graphs ::
  "pow \<Rightarrow> env \<Rightarrow> filesystem \<Rightarrow> database \<Rightarrow> (exc + int) \<times> database" where
  "load_all_graphs self ev fs dest =
     (let idx_fname = pth_join (pth_join (powdir self) ''graphs'') ''index'' in
      if exists fs idx_fname
      then (case open_read fs idx_fname of
              Inl e \<Rightarrow> (Inl e, dest)
            | Inr index_file \<Rightarrow>
                with_transaction (load_entries self ev fs (readlines index_file) 0) dest)
      else (Inr 0, dest))"

section \<open>\<^verbatim>\<open>init\<close>\<close>

text \<open>
  \<^verbatim>\<open>
  def init(self, update_existing_config=False):
      try:
          self._ensure_powdir()
          if not exists(self.config_file):
              self._init_config_file()
          elif update_existing_config:
              with open(self.config_file, 'r+') as f: ...
          self._init_store()
          self._init_repository()
      except Exception as e:
          self._ensure_no_powdir()
          raise e

  def _ensure_powdir(self):
      if not exists(self.powdir):
          makedirs(self.powdir)

  def _ensure_no_powdir(self):
      if exists(self.powdir):
          shutil.rmtree(self.powdir)
  \<close>
  Writing the configuration file, opening the store and initialising the repository
  are steps on the file system that may raise; each is a parameter that gives the file
  system as it leaves it and the exception it raised, if any. \<open>init_repository\<close> is
  \<open>None\<close> when no repository provider is set.
\<close>

type_synonym step = "filesystem \<Rightarrow> exc option \<times> filesystem"

record init_steps =
  init_config_file :: step
  update_config :: step
  init_store :: step
  init_repository :: "step option"

definition ensure_powdir :: "pow \<Rightarrow> step" where
  "ensure_powdir self fs =
     (if \<not> exists fs (powdir self)
      then (case makedirs fs (powdir self) of Inl e \<Rightarrow> (Some e, fs) | Inr fs' \<Rightarrow> (None, fs'))
      else (None, fs))"

definition ensure_no_powdir :: "pow \<Rightarrow> step" where
  "ensure_no_powdir self fs =
     (if exists fs (powdir self)
      then (case rmtree fs (powdir self) of Inl e \<Rightarrow> (Some e, fs) | Inr fs' \<Rightarrow> (None, fs'))
      else (None, fs))"

definition init_body :: "pow \<Rightarrow> init_steps \<Rightarrow> bool \<Rightarrow> step" where
  "init_body self steps update_existing_config fs =
     (case ensure_powdir self fs of
        (Some e, fs1) \<Rightarrow> (Some e, fs1)
      | (None, fs1) \<Rightarrow>
         (case (if \<not> exists fs1 (config_file self) then init_config_file steps fs1
                else if update_existing_config then update_config steps fs1
                else (None, fs1)) of
            (Some e, fs2) \<Rightarrow> (Some e, fs2)
          | (None, fs2) \<Rightarrow>
             (case init_store steps fs2 of
                (Some e, fs3) \<Rightarrow> (Some e, fs3)
              | (None, fs3) \<Rightarrow>
                 (case init_repository steps of
                    None \<Rightarrow> (None, fs3)
                  | Some repo_init \<Rightarrow> repo_init fs3))))"

definition init :: "pow \<Rightarrow> init_steps \<Rightarrow> bool \<Rightarrow> step" where
  "init self steps update_existing_config fs =
     (case init_body self steps update_existing_config fs of
        (None, fs') \<Rightarrow> (None, fs')
      | (Some e, fs') \<Rightarrow>
          if is_Exception e
          then (case ensure_no_powdir self fs' of
                  (Some e', fs'') \<Rightarrow> (Some e', fs'')
                | (None, fs'') \<Rightarrow> (Some e, fs''))
          else (Some e, fs'))"

section \<open>Concrete inputs\<close>

text \<open>
  A file system with the directories \<^verbatim>\<open>/a\<close>, \<^verbatim>\<open>/a/e\<close> and
  \<^verbatim>\<open>/a/escape\<close>.
\<close>

definition escape_fs :: filesystem where
  "escape_fs = \<lparr>cwd = ''/'',
     nodes = [[''a''] \<mapsto> Dir, [''a'', ''e''] \<mapsto> Dir, [''a'', ''escape''] \<mapsto> Dir]\<rparr>"

text \<open>
  A working directory \<^verbatim>\<open>/w/.pow\<close> that exists before \<^verbatim>\<open>init\<close> is called, with
  a configuration file and a file of the user's; the command object with the default
  names; and steps of \<^verbatim>\<open>init\<close> of which opening the store raises.
\<close>

definition old_fs :: filesystem where
  "old_fs = \<lparr>cwd = ''/w'',
     nodes = [[''w''] \<mapsto> Dir, [''w'', ''.pow''] \<mapsto> Dir, [''w'', ''.pow'', ''pow.conf''] \<mapsto> File ''{}'',
              [''w'', ''.pow'', ''notes''] \<mapsto> File ''keep'']\<rparr>"

definition default_pow :: pow where
  "default_pow = \<lparr>basedir = ''.'', powdir_attr = ''.pow'', config_file_attr = ''pow.conf''\<rparr>"

definition failing_store_steps :: init_steps where
  "failing_store_steps = \<lparr>init_config_file = (\<lambda>fs. (None, fs)), update_config = (\<lambda>fs. (None, fs)),
     init_store = (\<lambda>fs. (Some (OtherException ''store''), fs)), init_repository = None\<rparr>"

text \<open>
  Stand-ins for the collaborators, for the concrete inputs only: a digest that is the
  bytes of the identifier itself, and an N-Triples format that writes the three terms of
  a triple and a full stop on a line, separated by spaces.
\<close>

fun toy_parse_lines :: "string list \<Rightarrow> triple list \<times> bool" where
  "toy_parse_lines [] = ([], True)"
| "toy_parse_lines (l # ls) =
     (case split_on CHR '' '' (strip l) of
        [s, p, ob, d] \<Rightarrow>
          if d = ''.'' then (case toy_parse_lines ls of (ts, ok) \<Rightarrow> ((s, p, ob) # ts, ok))
          else ([], False)
      | _ \<Rightarrow> ([], False))"

definition toy_env :: env where
  "toy_env = \<lparr>sha256 = map (\<lambda>c. of_nat (of_char c)),
     nt_serialize = (\<lambda>ts. concat (map (\<lambda>(s, p, ob). s @ '' '' @ p @ '' '' @ ob @ '' .'' @ [CHR 0x0A]) ts)),
     nt_parse = (\<lambda>doc. toy_parse_lines (readlines doc))\<rparr>"


definition malformed_index_fs :: filesystem where
  "malformed_index_fs = \<lparr>cwd = ''/w'',
     nodes = [[''w''] \<mapsto> Dir, [''w'', ''.pow''] \<mapsto> Dir, [''w'', ''.pow'', ''graphs''] \<mapsto> Dir,
              [''w'', ''.pow'', ''graphs'', ''index''] \<mapsto>
                 File (''a.nt http://a'' @ [CHR 0x0A] @ ''c.nt'' @ [CHR 0x0A]),
              [''w'', ''.pow'', ''graphs'', ''a.nt''] \<mapsto> File (''s p o .'' @ [CHR 0x0A])]\<rparr>"

text \<open>
  Databases: an empty one; one whose store does not take part in transactions; and one
  whose store does and holds a context that has not been committed.
\<close>

definition fresh_database :: "bool \<Rightarrow> database" where
  "fresh_database j = \<lparr>graph_store = [], last_commit = [], joins_transaction = j\<rparr>"

definition plain_database :: database where
  "plain_database = \<lparr>graph_store = [(''http://x'', [(''s'', ''p'', ''x'')])],
     last_commit = [(''http://x'', [(''s'', ''p'', ''x'')])], joins_transaction = False\<rparr>"


text \<open>
  A working directory \<^verbatim>\<open>/w/.pow\<close> with nothing in it, a repository without local
  changes, a digest under which all identifiers collide, a store with a context of two
  triples and an empty context, the same store with a tab in the first identifier, a
  store whose only context has a space in its identifier, and one whose only context
  has an identifier that ends in a no-break space.
\<close>

definition fresh_fs :: filesystem where
  "fresh_fs = \<lparr>cwd = ''/w'', nodes = [[''w''] \<mapsto> Dir, [''w'', ''.pow''] \<mapsto> Dir]\<rparr>"

definition clean_repo :: repository_provider where
  "clean_repo = \<lparr>is_dirty = False, repo_reset = (\<lambda>fs. fs)\<rparr>"

definition colliding_env :: env where
  "colliding_env = toy_env\<lparr>sha256 := (\<lambda>ident. [])\<rparr>"

definition two_contexts :: store where
  "two_contexts = [(''http://b'', [(''s'', ''p'', ''o''), (''s'', ''p'', ''a'')]), (''http://a'', [])]"

definition tabbed_contexts :: store where
  "tabbed_contexts =
     [(''http://b'' @ [CHR 0x09] @ ''c'', [(''s'', ''p'', ''o''), (''s'', ''p'', ''a'')]),
      (''http://a'', [])]"

definition spaced_context :: store where
  "spaced_context = [(''a b'', [(''s'', ''p'', ''o'')])]"

definition nbsp_context :: store where
  "nbsp_context = [(''http://x'' @ [CHR 0xA0], [(''s'', ''p'', ''o'')])]"

section \<open>Auxiliary notions for the proofs\<close>

text \<open>
  The triples of a context that are in the store or still in the writer's buffer, and the
  relation between the running count and the length of the buffer.
\<close>

definition pending :: "batch_add_graph \<Rightarrow> store \<Rightarrow> string \<Rightarrow> triple set" where
  "pending bw st c = triples_of st c \<union> {t. (t, c) \<in> set (batch bw)}"

definition fill :: "batch_add_graph \<Rightarrow> bool" where
  "fill bw = (0 \<le> count bw \<and>
     int (length (batch bw)) = (if count bw = 0 then 0 else (count bw - 1) mod batchsize bw + 1))"

text \<open>
  The index format as the specification words it: a line is cut at its first space.
\<close>

definition spec_split_first_space :: "string \<Rightarrow> (string \<times> string) option" where
  "spec_split_first_space s =
     (if CHR '' '' \<in> set s
      then Some (takeWhile (\<lambda>c. c \<noteq> CHR '' '') s, tl (dropWhile (\<lambda>c. c \<noteq> CHR '' '') s))
      else None)"

text \<open>
  An index line that cannot be loaded: it does not parse, or the file it names cannot be
  opened, or the parser raises on that file.
\<close>

definition entry_fails :: "pow \<Rightarrow> env \<Rightarrow> filesystem \<Rightarrow> string \<Rightarrow> bool" where
  "entry_fails self ev fs l =
     (case parse_index_line l of
        Inl e \<Rightarrow> True
      | Inr (fname, ctx) \<Rightarrow>
         (case open_read fs (pth_join (pth_join (powdir self) ''graphs'') fname) of
            Inl e \<Rightarrow> True
          | Inr f \<Rightarrow> \<not> snd (nt_parse ev f)))"

text \<open>
  The components of a path string after normalisation, and the names that are one
  component: not empty, without a slash, and neither \<^verbatim>\<open>.\<close> nor \<^verbatim>\<open>..\<close>.
\<close>

definition comps :: "string \<Rightarrow> string list" where
  "comps s = foldl norm_step [] (split_on CHR ''/'' s)"

definition simple_name :: "string \<Rightarrow> bool" where
  "simple_name n = (n \<noteq> [] \<and> CHR ''/'' \<notin> set n \<and> n \<noteq> ''.'' \<and> n \<noteq> ''..'')"

text \<open>
  The file name that the digest of an identifier gives, and the nodes of the file system
  after the contexts of a store have been written below the directory \<open>K\<close>.
\<close>

definition ctx_name :: "env \<Rightarrow> string \<Rightarrow> string" where
  "ctx_name ev ident = hexdigest (sha256 ev ident) @ ''.nt''"

fun written :: "env \<Rightarrow> string list \<Rightarrow> store \<Rightarrow> (string list \<Rightarrow> node option) \<Rightarrow> string list \<Rightarrow> node option" where
  "written ev K [] m = m"
| "written ev K ((ident, x) # g) m =
     written ev K g (m(K @ [ctx_name ev ident] \<mapsto> File (nt_serialize ev (sort x))))"

text \<open>
  A file system in which the parent of every node is a directory; the file system after
  the reset of a dirty repository; and the text of the index of a store.
\<close>

definition tree_shaped :: "filesystem \<Rightarrow> bool" where
  "tree_shaped fs = (\<forall>q. nodes fs q \<noteq> None \<longrightarrow> node_at fs (butlast q) = Some Dir)"

definition after_reset :: "repository_provider \<Rightarrow> filesystem \<Rightarrow> filesystem" where
  "after_reset repo fs = (if is_dirty repo then repo_reset repo fs else fs)"

definition index_text :: "env \<Rightarrow> store \<Rightarrow> string" where
  "index_text ev g = concat (map index_line (sort (map (\<lambda>p. (ctx_name ev (fst p), fst p)) g)))"

text \<open>
  An identifier that an index line gives back as it is: not empty, without a space, a
  line feed or a carriage return, and not ending in whitespace. A context on which the
  N-Triples format round-trips: parsing what was serialised reaches the end of the
  document and gives the same set of triples.
\<close>

definition index_safe :: "string \<Rightarrow> bool" where
  "index_safe c = (c \<noteq> [] \<and> CHR '' '' \<notin> set c \<and> CHR 0x0A \<notin> set c \<and> CHR 0x0D \<notin> set c
     \<and> \<not> isspace (last c))"

definition codec_ok :: "env \<Rightarrow> triple list \<Rightarrow> bool" where
  "codec_ok ev x = (snd (nt_parse ev (nt_serialize ev (sort x)))
     \<and> set (fst (nt_parse ev (nt_serialize ev (sort x)))) = set x)"

text \<open>
  The contexts that are in the store or named in the writer's buffer, and an index entry
  that the bulk load can replay for the store \<open>g\<close>.
\<close>

definition known :: "batch_add_graph \<Rightarrow> store \<Rightarrow> string set" where
  "known bw st = fst ` set st \<union> snd ` set (batch bw)"

definition entry_ok :: "env \<Rightarrow> filesystem \<Rightarrow> string list \<Rightarrow> store \<Rightarrow> string \<times> string \<Rightarrow> bool" where
  "entry_ok ev fs K g e =
     (\<exists>x. map_of g (snd e) = Some x \<and> fst e = ctx_name ev (snd e)
        \<and> nodes fs (K @ [fst e]) = Some (File (nt_serialize ev (sort x)))
        \<and> codec_ok ev x \<and> index_safe (snd e))"

section \<open>Properties of the store\<close>

lemma triples_of_add_triple:
  "triples_of (add_triple c t st) c' = triples_of st c' \<union> (if c' = c then {t} else {})"
  by (induction st) (auto simp: triples_of_def)

lemma triples_of_addN:
  "triples_of (addN qs st) c = triples_of st c \<union> {t. (t, c) \<in> set qs}"
  by (induction qs st rule: addN.induct) (auto simp: triples_of_add_triple)

section \<open>Properties of the batch writer\<close>

lemma add_ok:
  assumes "batchsize bw \<noteq> 0"
  shows "\<exists>bw' st'. add bw t st = Inr (bw', st') \<and> graph bw' = graph bw \<and> batchsize bw' = batchsize bw
     \<and> count bw' = count bw + 1
     \<and> (\<forall>c. pending bw' st' c = pending bw st c \<union> (if c = graph bw then {t} else {}))"
  using assms by (auto simp: add_def pending_def triples_of_addN Let_def)

lemma feed_ok:
  assumes "batchsize bw \<noteq> 0"
  shows "\<exists>bw' st'. feed bw ts st = (None, bw', st') \<and> graph bw' = graph bw \<and> batchsize bw' = batchsize bw
     \<and> count bw' = count bw + int (length ts)
     \<and> (\<forall>c. pending bw' st' c = pending bw st c \<union> (if c = graph bw then set ts else {}))"
  using assms
proof (induction ts arbitrary: bw st)
  case Nil
  then show ?case by simp
next
  case (Cons t ts)
  from add_ok[OF Cons.prems, of t st] obtain bw1 st1 where
    a: "add bw t st = Inr (bw1, st1)" "graph bw1 = graph bw" "batchsize bw1 = batchsize bw"
       "count bw1 = count bw + 1"
       "\<forall>c. pending bw1 st1 c = pending bw st c \<union> (if c = graph bw then {t} else {})"
    by blast
  from a(3) Cons.prems have "batchsize bw1 \<noteq> 0" by simp
  from Cons.IH[OF this, of st1] obtain bw' st' where
    f: "feed bw1 ts st1 = (None, bw', st')" "graph bw' = graph bw1" "batchsize bw' = batchsize bw1"
       "count bw' = count bw1 + int (length ts)"
       "\<forall>c. pending bw' st' c = pending bw1 st1 c \<union> (if c = graph bw1 then set ts else {})"
    by blast
  show ?case using a f by auto
qed

lemma scope_ok:
  assumes "b \<noteq> 0"
  shows "\<exists>bw' st'. feed (enter (BatchAddGraph g b)) ts st = (None, bw', st')
     \<and> count bw' = int (length ts)
     \<and> (\<forall>c. triples_of (exit bw' None st') c = triples_of st c \<union> (if c = g then set ts else {}))"
proof -
  let ?bw = "enter (BatchAddGraph g b)"
  have b: "batchsize ?bw \<noteq> 0" "graph ?bw = g" "count ?bw = 0" "batch ?bw = []"
    using assms by (simp_all add: enter_def BatchAddGraph_def reset_def)
  from feed_ok[OF b(1), of ts st] obtain bw' st' where
    f: "feed ?bw ts st = (None, bw', st')" "count bw' = count ?bw + int (length ts)"
       "\<forall>c. pending bw' st' c = pending ?bw st c \<union> (if c = graph ?bw then set ts else {})"
    by blast
  have "triples_of (exit bw' None st') c = triples_of st c \<union> (if c = g then set ts else {})" for c
    using f(3) b by (simp add: exit_def triples_of_addN pending_def)
  with f b show ?thesis by simp
qed

text \<open>
  Claim C5. For any sequence of triples fed through \<^verbatim>\<open>add\<close> with a batch size of at
  least 1 and the scope left normally, every \<^verbatim>\<open>add\<close> succeeds and the target context
  then holds exactly the triples it held before together with the triples fed; no other
  context changes. For an empty target this is the set of the fed triples, whatever the
  batch size.
\<close>

theorem batch_writer_all_triples:
  assumes "1 \<le> b"
  shows "\<exists>bw' st'. feed (enter (BatchAddGraph g b)) ts st = (None, bw', st')
     \<and> triples_of (exit bw' None st') g = triples_of st g \<union> set ts
     \<and> (\<forall>c. c \<noteq> g \<longrightarrow> triples_of (exit bw' None st') c = triples_of st c)"
proof -
  from assms have "b \<noteq> 0" by simp
  from scope_ok[OF this, of g ts st] show ?thesis by auto
qed

lemma mod_pred: "(1::int) \<le> B \<Longrightarrow> c mod B \<noteq> 0 \<Longrightarrow> (c - 1) mod B = c mod B - 1"
proof -
  assume B: "1 \<le> B" and c: "c mod B \<noteq> 0"
  have "0 \<le> c mod B" "c mod B < B" using B by simp_all
  with c have r: "0 \<le> c mod B - 1" "c mod B - 1 < B" by simp_all
  have "(c - 1) mod B = (c mod B - 1) mod B" by (simp add: mod_diff_left_eq)
  also have "\<dots> = c mod B - 1" using r by (rule mod_pos_pos_trivial)
  finally show ?thesis .
qed

lemma fill_full:
  assumes "1 \<le> batchsize bw" "fill bw"
  shows "(int (length (batch bw)) = batchsize bw) = (count bw > 0 \<and> count bw mod batchsize bw = 0)"
    and "int (length (batch bw)) \<le> batchsize bw"
proof -
  let ?B = "batchsize bw" and ?c = "count bw"
  have "(?c - 1) mod ?B < ?B" using assms(1) by simp
  then have "(?c - 1) mod ?B + 1 \<le> ?B" by linarith
  then show "int (length (batch bw)) \<le> ?B"
    using assms by (auto simp: fill_def split: if_splits)
  show "(int (length (batch bw)) = ?B) = (?c > 0 \<and> ?c mod ?B = 0)"
  proof (cases "?c = 0")
    case True
    with assms show ?thesis by (simp add: fill_def)
  next
    case False
    with assms have pos: "?c > 0" and len: "int (length (batch bw)) = (?c - 1) mod ?B + 1"
      by (simp_all add: fill_def)
    show ?thesis
    proof (cases "?c mod ?B = 0")
      case True
      have "(?c - 1) mod ?B = (?c mod ?B - 1) mod ?B" by (simp add: mod_diff_left_eq)
      also have "\<dots> = (- 1) mod ?B" using True by simp
      also have "\<dots> = ?B - 1" using assms(1) by (simp add: zmod_minus1)
      finally show ?thesis using len pos True by simp
    next
      case False
      have "?c mod ?B < ?B" using assms(1) by simp
      then have lt: "?c mod ?B \<le> ?B - 1" by linarith
      from mod_pred[OF assms(1) False] len have "int (length (batch bw)) = ?c mod ?B" by simp
      with lt have "int (length (batch bw)) \<noteq> ?B" by linarith
      with False show ?thesis by simp
    qed
  qed
qed

lemma add_fill:
  assumes "1 \<le> batchsize bw" "fill bw" "add bw t st = Inr (bw', st')"
  shows "fill bw'"
proof (cases "count bw > 0 \<and> count bw mod batchsize bw = 0")
  case True
  with assms show ?thesis by (auto simp: add_def fill_def Let_def)
next
  case False
  show ?thesis
  proof (cases "count bw = 0")
    case True
    with assms show ?thesis by (auto simp: add_def fill_def Let_def)
  next
    case nz: False
    with assms(2) have pos: "count bw > 0" by (simp add: fill_def)
    with False have m: "count bw mod batchsize bw \<noteq> 0" by simp
    from mod_pred[OF assms(1) m] assms pos m show ?thesis
      by (auto simp: add_def fill_def Let_def)
  qed
qed

lemma feed_fill:
  assumes "1 \<le> batchsize bw" "fill bw" "feed bw ts st = (r, bw', st')"
  shows "fill bw'"
  using assms
proof (induction ts arbitrary: bw st)
  case Nil
  then show ?case by simp
next
  case (Cons t ts)
  show ?case
  proof (cases "add bw t st")
    case (Inl e)
    with Cons.prems show ?thesis by simp
  next
    case (Inr p)
    obtain bw1 st1 where p: "p = (bw1, st1)" by (cases p)
    from Cons.prems(1) have "batchsize bw \<noteq> 0" by simp
    from add_ok[OF this, of t st] Inr p have b1: "batchsize bw1 = batchsize bw" by simp
    from add_fill[OF Cons.prems(1,2)] Inr p have "fill bw1" by simp
    moreover from Cons.prems(3) Inr p have "feed bw1 ts st1 = (r, bw', st')" by simp
    ultimately show ?thesis using Cons.IH[of bw1 st1] b1 Cons.prems(1) by simp
  qed
qed

theorem batch_writer_all_triples_witness:
  "(1::int) \<le> 2 \<and>
   (\<exists>bw' st'. feed (enter (BatchAddGraph ''g'' 2))
        [(''s'', ''p'', ''a''), (''s'', ''p'', ''b''), (''s'', ''p'', ''c'')] [] = (None, bw', st')
     \<and> triples_of (exit bw' None st') ''g'' =
         triples_of [] ''g'' \<union> set [(''s'', ''p'', ''a''), (''s'', ''p'', ''b''), (''s'', ''p'', ''c'')]
     \<and> (\<forall>c. c \<noteq> ''g'' \<longrightarrow> triples_of (exit bw' None st') c = triples_of [] c))"
  using batch_writer_all_triples [of 2 "''g''"
      "[(''s'', ''p'', ''a''), (''s'', ''p'', ''b''), (''s'', ''p'', ''c'')]" "[]"]
  by simp

text \<open>
  Claim C6, as the code has it. With a batch size \<open>b\<close> of at least 1, after any sequence
  of \<^verbatim>\<open>add\<close> calls the count is the number of triples added and the buffer holds at
  most \<open>b\<close> quads. A full buffer stays unflushed until the next \<^verbatim>\<open>add\<close>: that call
  passes the whole buffer to the store in one \<^verbatim>\<open>addN\<close>, empties it and then buffers
  its own triple; an \<^verbatim>\<open>add\<close> on a buffer that is not full leaves the store alone.
\<close>

theorem add_flushes_full_buffer_lazily:
  assumes "1 \<le> b"
  shows "\<exists>bw st'. feed (enter (BatchAddGraph g b)) ts st = (None, bw, st')
     \<and> count bw = int (length ts)
     \<and> int (length (batch bw)) \<le> b
     \<and> add bw t st' =
         Inr (if int (length (batch bw)) = b
              then (bw\<lparr>batch := [(t, g)], count := count bw + 1\<rparr>, addN (batch bw) st')
              else (bw\<lparr>batch := batch bw @ [(t, g)], count := count bw + 1\<rparr>, st'))"
proof -
  let ?bw = "enter (BatchAddGraph g b)"
  have b: "batchsize ?bw = b" "graph ?bw = g" "count ?bw = 0" "batch ?bw = []"
    by (simp_all add: enter_def BatchAddGraph_def reset_def)
  have f0: "fill ?bw" by (simp add: fill_def b)
  from assms b have nz: "batchsize ?bw \<noteq> 0" by simp
  from feed_ok[OF nz, of ts st] obtain bw st' where
    f: "feed ?bw ts st = (None, bw, st')" "graph bw = graph ?bw" "batchsize bw = batchsize ?bw"
       "count bw = count ?bw + int (length ts)"
    by blast
  from assms b have "1 \<le> batchsize ?bw" by simp
  from feed_fill[OF this f0 f(1)] have fl: "fill bw" .
  from f b assms have B: "1 \<le> batchsize bw" by simp
  note full = fill_full[OF B fl]
  have "add bw t st' =
         Inr (if int (length (batch bw)) = b
              then (bw\<lparr>batch := [(t, g)], count := count bw + 1\<rparr>, addN (batch bw) st')
              else (bw\<lparr>batch := batch bw @ [(t, g)], count := count bw + 1\<rparr>, st'))"
    using full(1) f(2,3) b B by (auto simp: add_def Let_def)
  with f b full(2) show ?thesis by simp
qed

theorem add_flushes_full_buffer_lazily_witness:
  "(1::int) \<le> 1 \<and>
   (\<exists>bw st'. feed (enter (BatchAddGraph ''g'' 1)) [(''s'', ''p'', ''a'')] [] = (None, bw, st')
     \<and> count bw = int (length [(''s'', ''p'', ''a'')])
     \<and> int (length (batch bw)) \<le> 1
     \<and> add bw (''s'', ''p'', ''b'') st' =
         Inr (if int (length (batch bw)) = 1
              then (bw\<lparr>batch := [((''s'', ''p'', ''b''), ''g'')], count := count bw + 1\<rparr>,
                    addN (batch bw) st')
              else (bw\<lparr>batch := batch bw @ [((''s'', ''p'', ''b''), ''g'')], count := count bw + 1\<rparr>,
                    st')))"
  using add_flushes_full_buffer_lazily [of 1 "''g''" "[(''s'', ''p'', ''a'')]" "[]" "(''s'', ''p'', ''b'')"]
  by simp

text \<open>
  Claim C6 as the specification states it fails: with batch size 1, after one
  \<^verbatim>\<open>add\<close> the buffer holds one quad, which is the batch size, and nothing has reached
  the store.
\<close>

theorem add_no_flush_when_full_counterexample:
  "feed (enter (BatchAddGraph ''g'' 1)) [(''s'', ''p'', ''a'')] [] =
     (None, \<lparr>graph = ''g'', batchsize = 1, batch = [((''s'', ''p'', ''a''), ''g'')], count = 1\<rparr>, [])"
  by (simp add: enter_def BatchAddGraph_def reset_def add_def)

text \<open>
  Claim C7. Leaving the scope normally passes the buffer to the store in one
  \<^verbatim>\<open>addN\<close>, after which every buffered triple is in its context; leaving it because
  of an exception leaves the store as it was, so the buffered triples are not inserted.
\<close>

theorem exit_flushes_or_discards:
  "exit bw None st = addN (batch bw) st
   \<and> (\<forall>c. triples_of (exit bw None st) c = triples_of st c \<union> {t. (t, c) \<in> set (batch bw)})
   \<and> exit bw (Some e) st = st"
  by (simp add: exit_def triples_of_addN)

section \<open>Properties of the data source loader\<close>

text \<open>
  Claim C1 fails on the code. With the base directory \<^verbatim>\<open>/a/e\<close> and a loader that
  returns \<^verbatim>\<open>../escape\<close>, the resolved path is \<^verbatim>\<open>/a/escape\<close>. It is neither the
  base directory nor below it, but the base directory is a prefix of it as a string,
  which is all that \<^verbatim>\<open>startswith\<close> tests: the call raises nothing and returns the
  path outside the base directory.
\<close>

theorem call_loader_accepts_sibling_with_base_prefix:
  "resolve_in escape_fs (PyStr ''/a/e'') ''../escape'' = Inr ''/a/escape''
   \<and> ''/a/escape'' \<noteq> ''/a/e'' \<and> \<not> startswith ''/a/escape'' (''/a/e'' @ ''/'')"
  by (simp add: resolve_in_def DataSourceDirLoader_def call_loader_def escape_fs_def realpath_def
      resolve_def abs_comps_def isabs_def startswith_def pth_join_def norm_step_def exists_def
      isdir_def node_at_def)

text \<open>
  Claim C9. A loader constructed with a falsy base directory (none given,
  \<^verbatim>\<open>None\<close>, the empty string, \<open>0\<close>, \<^verbatim>\<open>False\<close>) has no attribute
  \<^verbatim>\<open>base_directory\<close>: every call whose \<^verbatim>\<open>load\<close> returns a non-empty path raises
  \<^verbatim>\<open>AttributeError\<close>, not \<^verbatim>\<open>LoadFailed\<close>, whether the path is relative or absolute.
\<close>

theorem loader_without_base_raises_AttributeError:
  assumes "\<not> truthy base" and "s \<noteq> []"
  shows "resolve_in fs base s = Inl AttributeError"
  using assms by (simp add: resolve_in_def DataSourceDirLoader_def call_loader_def)

theorem loader_without_base_raises_AttributeError_witness:
  "\<not> truthy PyNone \<and> ''data'' \<noteq> [] \<and> resolve_in escape_fs PyNone ''data'' = Inl AttributeError"
  using loader_without_base_raises_AttributeError [of PyNone "''data''" escape_fs] by simp

section \<open>Properties of \<^verbatim>\<open>init\<close>\<close>

text \<open>
  Claim C10. When the body of \<^verbatim>\<open>init\<close> raises an \<^verbatim>\<open>Exception\<close> and the working
  directory is a directory at that moment, the handler removes the whole tree below it:
  every node at or below \<^verbatim>\<open>powdir\<close> is gone afterwards, those that were there before
  the call as well as those the call made, the rest of the file system is as the body
  left it, and the exception is raised again.
\<close>

theorem init_failure_removes_whole_powdir:
  assumes "init_body self steps update_existing_config fs = (Some e, fs')"
    and "is_Exception e"
    and "cwd fs' = cwd fs"
    and "isdir fs' (powdir self)"
  shows "init self steps update_existing_config fs =
     (Some e, fs'\<lparr>nodes := (\<lambda>q. if take (length (resolve fs (powdir self))) q = resolve fs (powdir self)
                               then None else nodes fs' q)\<rparr>)"
proof -
  have r: "resolve fs' (powdir self) = resolve fs (powdir self)"
    using assms(3) by (simp add: resolve_def)
  from assms(4) have "ensure_no_powdir self fs' =
     (None, fs'\<lparr>nodes := (\<lambda>q. if take (length (resolve fs (powdir self))) q = resolve fs (powdir self)
                               then None else nodes fs' q)\<rparr>)"
    by (simp add: ensure_no_powdir_def exists_def isdir_def rmtree_def r Let_def)
  with assms(1,2) show ?thesis by (simp add: init_def)
qed

lemma resolve_old: "resolve old_fs (powdir default_pow) = [''w'', ''.pow'']"
   "resolve old_fs (config_file default_pow) = [''w'', ''.pow'', ''pow.conf'']"
  by (simp_all add: resolve_def old_fs_def default_pow_def powdir_def config_file_def abs_comps_def
      isabs_def startswith_def pth_join_def norm_step_def)

lemma body_old: "init_body default_pow failing_store_steps False old_fs = (Some (OtherException ''store''), old_fs)"
  by (simp add: init_body_def ensure_powdir_def exists_def resolve_old node_at_def failing_store_steps_def)
     (simp add: old_fs_def)

theorem init_failure_removes_whole_powdir_witness:
  "init_body default_pow failing_store_steps False old_fs = (Some (OtherException ''store''), old_fs)
   \<and> is_Exception (OtherException ''store'')
   \<and> cwd old_fs = cwd old_fs
   \<and> isdir old_fs (powdir default_pow)
   \<and> nodes old_fs [''w'', ''.pow'', ''notes''] = Some (File ''keep'')
   \<and> nodes (snd (init default_pow failing_store_steps False old_fs)) [''w'', ''.pow'', ''notes''] = None"
proof -
  have d: "isdir old_fs (powdir default_pow)"
    by (simp add: isdir_def resolve_old node_at_def) (simp add: old_fs_def)
  have e: "is_Exception (OtherException ''store'')" by simp
  from init_failure_removes_whole_powdir [OF body_old e refl d]
  show ?thesis using d body_old by (simp add: resolve_old) (simp add: old_fs_def)
qed

section \<open>Properties of the index and of the bulk load\<close>

lemma split_on_not_Nil: "split_on c s \<noteq> []"
  by (induction s) (auto split: list.splits)

lemma split_on_no_sep: "c \<notin> set s \<Longrightarrow> split_on c s = [s]"
  by (induction s) auto

lemma length_split_on: "length (split_on c s) = Suc (count_list s c)"
  by (induction s) (auto split: list.splits simp: split_on_not_Nil)

lemma split_on_first:
  "split_on c s = takeWhile (\<lambda>x. x \<noteq> c) s #
     (case dropWhile (\<lambda>x. x \<noteq> c) s of [] \<Rightarrow> [] | x # r \<Rightarrow> split_on c r)"
  by (induction s) (auto split: list.splits simp: split_on_not_Nil)

lemma count_list_0: "count_list s c = 0 \<longleftrightarrow> c \<notin> set s"
  by (induction s) auto

lemma count_list_dropWhile:
  "c \<in> set s \<Longrightarrow> count_list s c = Suc (count_list (tl (dropWhile (\<lambda>x. x \<noteq> c) s)) c)"
  by (induction s) auto

lemma split_on_two:
  assumes "count_list s c = 1"
  shows "split_on c s = [takeWhile (\<lambda>x. x \<noteq> c) s, tl (dropWhile (\<lambda>x. x \<noteq> c) s)]"
proof -
  from assms have m: "c \<in> set s" using count_list_0[of s c] by auto
  then obtain x r where d: "dropWhile (\<lambda>x. x \<noteq> c) s = x # r"
    by (cases "dropWhile (\<lambda>x. x \<noteq> c) s") (auto simp: dropWhile_eq_Nil_conv)
  from count_list_dropWhile[OF m] assms d have "count_list r c = 0" by simp
  then have "c \<notin> set r" by (simp add: count_list_0)
  then have "split_on c r = [r]" by (rule split_on_no_sep)
  with d show ?thesis by (subst split_on_first) simp
qed

lemma parse_index_line_eq:
  "parse_index_line l =
     (if count_list (strip l) CHR '' '' = 1
      then Inr (takeWhile (\<lambda>c. c \<noteq> CHR '' '') (strip l), tl (dropWhile (\<lambda>c. c \<noteq> CHR '' '') (strip l)))
      else Inl ValueError)"
proof (cases "count_list (strip l) CHR '' '' = 1")
  case True
  from split_on_two[OF True] True show ?thesis by (simp add: parse_index_line_def)
next
  case False
  then have "length (split_on CHR '' '' (strip l)) \<noteq> 2" by (simp add: length_split_on)
  then have "parse_index_line l = Inl ValueError"
    by (auto simp: parse_index_line_def split: list.splits)
  with False show ?thesis by simp
qed

lemma parse_into_malformed:
  "\<not> snd (nt_parse ev f) \<Longrightarrow> \<exists>e g' st'. parse_into ev f g st = (Some e, g', st')"
  by (auto simp: parse_into_def split: prod.splits option.splits)

lemma load_entries_fails:
  "list_ex (entry_fails self ev fs) ls \<Longrightarrow> \<exists>e st. load_entries self ev fs ls n dest = (Inl e, st)"
proof (induction ls arbitrary: n dest)
  case Nil
  then show ?case by simp
next
  case (Cons l ls)
  show ?case
  proof (cases "parse_index_line l")
    case (Inl e)
    then show ?thesis by simp
  next
    case (Inr p)
    obtain fname ctx where p: "p = (fname, ctx)" by (cases p)
    show ?thesis
    proof (cases "open_read fs (pth_join (pth_join (powdir self) ''graphs'') fname)")
      case (Inl e)
      with Inr p show ?thesis by simp
    next
      case f: (Inr f)
      obtain r g st where pi: "parse_into ev f (enter (BatchAddGraph ctx 4000)) dest = (r, g, st)"
        by (cases "parse_into ev f (enter (BatchAddGraph ctx 4000)) dest") auto
      show ?thesis
      proof (cases r)
        case (Some e)
        with Inr p f pi show ?thesis by simp
      next
        case None
        with parse_into_malformed[of ev f "enter (BatchAddGraph ctx 4000)" dest] pi
        have "snd (nt_parse ev f)" by auto
        with Inr p f have "\<not> entry_fails self ev fs l" by (simp add: entry_fails_def)
        with Cons.prems have "list_ex (entry_fails self ev fs) ls" by simp
        from Cons.IH[OF this] Inr p f pi None show ?thesis by simp
      qed
    qed
  qed
qed

lemma load_all_graphs_fails:
  assumes "open_read fs (pth_join (pth_join (powdir self) ''graphs'') ''index'') = Inr index"
    and "l \<in> set (readlines index)" and "entry_fails self ev fs l"
  shows "\<exists>e st. load_all_graphs self ev fs dest =
     (Inl e, tx_abort ((tx_begin dest)\<lparr>graph_store := st\<rparr>))"
proof -
  from assms(1) have ex: "exists fs (pth_join (pth_join (powdir self) ''graphs'') ''index'')"
    by (auto simp: open_read_def exists_def split: option.splits node.splits)
  from assms(2,3) have "list_ex (entry_fails self ev fs) (readlines index)"
    by (auto simp: list_ex_iff)
  from load_entries_fails[OF this, of 0 "graph_store (tx_begin dest)"] obtain e st where
    "load_entries self ev fs (readlines index) 0 (graph_store (tx_begin dest)) = (Inl e, st)" by blast
  with ex assms(1) have "load_all_graphs self ev fs dest =
      (Inl e, tx_abort ((tx_begin dest)\<lparr>graph_store := st\<rparr>))"
    by (simp add: load_all_graphs_def with_transaction_def Let_def)
  then show ?thesis by blast
qed


text \<open>
  Claim C8, as the code has it. A line of the index is stripped of the whitespace around
  it and cut at every space; it gives a file name and a context identifier exactly when
  the stripped line has one space, and raises \<^verbatim>\<open>ValueError\<close> otherwise (no space, or
  more than one). A line that does not parse is never skipped: the loop that reaches it
  ends with \<^verbatim>\<open>ValueError\<close>, and wherever it stands in the index, the load ends with
  an exception.
\<close>

theorem index_line_needs_exactly_two_fields:
  "parse_index_line l =
     (if count_list (strip l) CHR '' '' = 1
      then Inr (takeWhile (\<lambda>c. c \<noteq> CHR '' '') (strip l), tl (dropWhile (\<lambda>c. c \<noteq> CHR '' '') (strip l)))
      else Inl ValueError)
   \<and> (count_list (strip l) CHR '' '' \<noteq> 1
      \<longrightarrow> load_entries self ev fs (l # ls) n st = (Inl ValueError, st))
   \<and> (open_read fs (pth_join (pth_join (powdir self) ''graphs'') ''index'') = Inr index
        \<and> l \<in> set (readlines index) \<and> count_list (strip l) CHR '' '' \<noteq> 1
      \<longrightarrow> (\<exists>e db. load_all_graphs self ev fs dest = (Inl e, db)))"
proof -
  have "entry_fails self ev fs l" if "count_list (strip l) CHR '' '' \<noteq> 1"
    using that by (simp add: entry_fails_def parse_index_line_eq)
  then have "\<exists>e db. load_all_graphs self ev fs dest = (Inl e, db)"
    if "open_read fs (pth_join (pth_join (powdir self) ''graphs'') ''index'') = Inr index"
      "l \<in> set (readlines index)" "count_list (strip l) CHR '' '' \<noteq> 1"
    using that load_all_graphs_fails[of fs self index l ev dest] by blast
  then show ?thesis by (simp add: parse_index_line_eq)
qed

lemma malformed_open_index:
  "open_read malformed_index_fs (pth_join (pth_join (powdir default_pow) ''graphs'') ''index'') =
     Inr (''a.nt http://a'' @ [CHR 0x0A] @ ''c.nt'' @ [CHR 0x0A])"
  by code_simp

lemma malformed_line:
  "''c.nt'' @ [CHR 0x0A] \<in> set (readlines (''a.nt http://a'' @ [CHR 0x0A] @ ''c.nt'' @ [CHR 0x0A]))"
  by code_simp

lemma malformed_count: "count_list (strip (''c.nt'' @ [CHR 0x0A])) CHR '' '' \<noteq> 1"
  by code_simp

lemma malformed_load:
  "load_all_graphs default_pow toy_env malformed_index_fs plain_database =
     (Inl ValueError,
      plain_database\<lparr>graph_store :=
        [(''http://x'', [(''s'', ''p'', ''x'')]), (''http://a'', [(''s'', ''p'', ''o'')])]\<rparr>)"
  by code_simp

theorem index_line_needs_exactly_two_fields_witness:
  "parse_index_line (''c.nt'' @ [CHR 0x0A]) = Inl ValueError
   \<and> open_read malformed_index_fs (pth_join (pth_join (powdir default_pow) ''graphs'') ''index'') =
       Inr (''a.nt http://a'' @ [CHR 0x0A] @ ''c.nt'' @ [CHR 0x0A])
   \<and> ''c.nt'' @ [CHR 0x0A] \<in> set (readlines (''a.nt http://a'' @ [CHR 0x0A] @ ''c.nt'' @ [CHR 0x0A]))
   \<and> count_list (strip (''c.nt'' @ [CHR 0x0A])) CHR '' '' \<noteq> 1
   \<and> load_entries default_pow toy_env malformed_index_fs [''c.nt'' @ [CHR 0x0A]] 1 [] = (Inl ValueError, [])
   \<and> (\<exists>e db. load_all_graphs default_pow toy_env malformed_index_fs plain_database = (Inl e, db))
   \<and> fst (load_all_graphs default_pow toy_env malformed_index_fs plain_database) = Inl ValueError"
  using index_line_needs_exactly_two_fields [of "''c.nt'' @ [CHR 0x0A]" default_pow toy_env
      malformed_index_fs "[]" 1 "[]" "''a.nt http://a'' @ [CHR 0x0A] @ ''c.nt'' @ [CHR 0x0A]"
      plain_database]
    malformed_open_index malformed_line malformed_count malformed_load
  by simp

text \<open>
  Claim C8 as the specification states it fails: a line with two spaces, cut at the
  first space, would give a file name and an identifier with a space in it; the code
  raises \<^verbatim>\<open>ValueError\<close> on it.
\<close>

theorem index_line_first_space_counterexample:
  "spec_split_first_space ''f.nt http://x y'' = Some (''f.nt'', ''http://x y'')
   \<and> parse_index_line ''f.nt http://x y'' = Inl ValueError"
  by code_simp








section \<open>Properties of paths and of the file system\<close>

lemma split_on_append_sep: "split_on c (xs @ c # ys) = split_on c xs @ split_on c ys"
  by (induction xs) (auto split: list.splits simp: split_on_not_Nil)

lemma abs_comps_comps: "abs_comps wd p = comps (if isabs p then p else pth_join wd p)"
  by (simp add: abs_comps_def comps_def)

lemma comps_Nil: "comps [] = []"
  by (simp add: comps_def norm_step_def)

lemma comps_slash_name:
  assumes "simple_name n"
  shows "comps (d @ CHR ''/'' # n) = comps d @ [n]"
  using assms
  by (simp add: comps_def split_on_append_sep split_on_no_sep simple_name_def norm_step_def)

lemma comps_trailing_slash: "comps (d @ ''/'') = comps d"
  using split_on_append_sep[of "CHR ''/''" d "[]"]
  by (simp add: comps_def norm_step_def)

lemma comps_name: "simple_name n \<Longrightarrow> comps n = [n]"
  by (simp add: comps_def split_on_no_sep simple_name_def norm_step_def)

lemma simple_not_abs: "simple_name n \<Longrightarrow> \<not> startswith n ''/''"
  by (cases n) (auto simp: simple_name_def startswith_def)

lemma comps_pth_join:
  assumes "simple_name n"
  shows "comps (pth_join d n) = comps d @ [n]"
proof (cases "d = []")
  case True
  with assms show ?thesis by (simp add: pth_join_def simple_not_abs comps_name comps_Nil)
next
  case False
  show ?thesis
  proof (cases "last d = CHR ''/''")
    case True
    with False obtain d' where d: "d = d' @ ''/''"
      by (metis append_butlast_last_id)
    have "comps (d' @ CHR ''/'' # n) = comps d' @ [n]" by (rule comps_slash_name[OF assms])
    moreover have "comps d = comps d'" unfolding d by (rule comps_trailing_slash)
    ultimately show ?thesis using assms d by (simp add: pth_join_def simple_not_abs)
  next
    case nl: False
    with False assms show ?thesis
      using comps_slash_name[OF assms, of d] by (simp add: pth_join_def simple_not_abs)
  qed
qed

lemma comps_pth_join_Nil: "comps (pth_join wd []) = comps wd"
  using comps_trailing_slash[of wd] by (simp add: pth_join_def startswith_def)

lemma startswith_append: "d \<noteq> [] \<Longrightarrow> startswith (d @ r) ''/'' = startswith d ''/''"
  by (cases d) (auto simp: startswith_def)

lemma pth_join_assoc:
  assumes "d \<noteq> []" "\<not> startswith d ''/''" "\<not> startswith n ''/''"
  shows "pth_join wd (pth_join d n) = pth_join (pth_join wd d) n"
  using assms by (auto simp: pth_join_def startswith_append)

lemma isabs_pth_join: "d \<noteq> [] \<Longrightarrow> \<not> startswith n ''/'' \<Longrightarrow> isabs (pth_join d n) = isabs d"
  by (auto simp: isabs_def pth_join_def startswith_append)

lemma abs_comps_pth_join:
  assumes "simple_name n"
  shows "abs_comps wd (pth_join d n) = abs_comps wd d @ [n]"
proof (cases "d = []")
  case True
  have "pth_join [] n = n" using assms by (simp add: pth_join_def simple_not_abs)
  moreover have "\<not> isabs n" using assms by (simp add: isabs_def simple_not_abs)
  moreover have "\<not> isabs []" by (simp add: isabs_def startswith_def)
  ultimately show ?thesis using True assms
    by (simp add: abs_comps_comps comps_pth_join comps_pth_join_Nil)
next
  case False
  note na = simple_not_abs[OF assms]
  show ?thesis
  proof (cases "isabs d")
    case True
    with False na assms show ?thesis
      by (simp add: abs_comps_comps isabs_pth_join comps_pth_join)
  next
    case nab: False
    then have "\<not> startswith d ''/''" by (simp add: isabs_def)
    from pth_join_assoc[OF False this na] False na nab assms show ?thesis
      by (simp add: abs_comps_comps isabs_pth_join comps_pth_join)
  qed
qed

lemma commonprefix_append: "commonprefix xs (xs @ ys) = xs"
  by (induction xs) auto

lemma relpath_in_child:
  assumes "simple_name n"
  shows "relpath_in wd (pth_join d n) d = n"
  using assms
  by (simp add: relpath_in_def abs_comps_pth_join commonprefix_append Let_def simple_name_def)

lemma resolve_nodes [simp]: "resolve (fs\<lparr>nodes := m\<rparr>) p = resolve fs p"
  by (simp add: resolve_def)

lemma simple_graphs: "simple_name ''graphs''" and simple_index: "simple_name ''index''"
  by (simp_all add: simple_name_def)

lemma resolve_child:
  "simple_name n \<Longrightarrow> resolve fs (pth_join d n) = resolve fs d @ [n]"
  by (simp add: resolve_def abs_comps_pth_join)

lemma exists_child:
  "simple_name n \<Longrightarrow> exists fs (pth_join d n) = (nodes fs (resolve fs d @ [n]) \<noteq> None)"
  by (simp add: exists_def resolve_child node_at_def)

lemma open_write_child:
  assumes "simple_name n" "node_at fs (resolve fs d) = Some Dir" "nodes fs (resolve fs d @ [n]) \<noteq> Some Dir"
  shows "open_write fs (pth_join d n) s = Inr (fs\<lparr>nodes := (nodes fs)(resolve fs d @ [n] \<mapsto> File s)\<rparr>)"
  using assms by (simp add: open_write_def resolve_child node_at_def parent_error_def Let_def)

lemma open_read_child:
  assumes "simple_name n" "nodes fs (resolve fs d @ [n]) = Some (File s)"
  shows "open_read fs (pth_join d n) = Inr s"
  using assms by (simp add: open_read_def resolve_child node_at_def)

lemma relpath_child: "simple_name n \<Longrightarrow> relpath fs (pth_join d n) d = n"
  by (simp add: relpath_def relpath_in_child)

section \<open>Properties of the serialisation\<close>

lemma hexdigit_in: "n < 16 \<Longrightarrow> hexdigit n \<in> set ''0123456789abcdef''"
  unfolding hexdigit_def by (rule nth_mem) simp

lemma hexdigest_chars: "c \<in> set (hexdigest bs) \<Longrightarrow> c \<in> set ''0123456789abcdef''"
proof -
  assume "c \<in> set (hexdigest bs)"
  then obtain b :: "8 word" where b: "c = hexdigit (unat b div 16) \<or> c = hexdigit (unat b mod 16)"
    unfolding hexdigest_def by fastforce
  have "unat b < 256" using unsigned_less[of b] by simp
  then have "unat b div 16 < 16" by simp
  moreover have "unat b mod 16 < 16" by simp
  ultimately show ?thesis using b hexdigit_in by metis
qed

lemma plain_char_not_space: "c \<in> set ''0123456789abcdef.nt'' \<Longrightarrow> \<not> isspace c"
  by (simp add: isspace_def) (elim disjE; simp)

lemma ctx_name_chars:
  assumes "c \<in> set (ctx_name ev ident)"
  shows "c \<noteq> CHR ''/''" and "\<not> isspace c" and "c \<noteq> CHR '' ''" and "c \<noteq> CHR 0x0A"
    and "c \<noteq> CHR 0x0D"
proof -
  from assms have "c \<in> set ''0123456789abcdef'' \<or> c \<in> set ''.nt''"
    using hexdigest_chars[of c "sha256 ev ident"] unfolding ctx_name_def by fastforce
  then have m: "c \<in> set ''0123456789abcdef.nt''" by fastforce
  from m show "c \<noteq> CHR ''/''" by fastforce
  from m show "c \<noteq> CHR '' ''" by fastforce
  from m show "c \<noteq> CHR 0x0A" by fastforce
  from m show "c \<noteq> CHR 0x0D" by fastforce
  from m show "\<not> isspace c" by (rule plain_char_not_space)
qed

lemma ctx_name_simple: "simple_name (ctx_name ev ident)"
proof -
  have "CHR ''/'' \<notin> set (ctx_name ev ident)" using ctx_name_chars(1) by blast
  moreover have "length (ctx_name ev ident) \<ge> 3" by (simp add: ctx_name_def)
  then have "ctx_name ev ident \<noteq> []" "ctx_name ev ident \<noteq> ''.''" "ctx_name ev ident \<noteq> ''..''"
    by auto
  ultimately show ?thesis by (simp add: simple_name_def)
qed

lemma ctx_name_not_index: "ctx_name ev ident \<noteq> ''index''"
proof
  assume "ctx_name ev ident = ''index''"
  then have "last (ctx_name ev ident) = CHR ''x''" by simp
  then show False by (simp add: ctx_name_def)
qed

lemma find_fname_eq:
  "find_fname fs gb hs fname i = (if exists fs fname then Inl TypeError else Inr fname)"
  by (subst find_fname.simps) simp

lemma written_other:
  "(\<forall>p \<in> set g. q \<noteq> K @ [ctx_name ev (fst p)]) \<Longrightarrow> written ev K g m q = m q"
  by (induction g arbitrary: m) auto

lemma written_at:
  "distinct (map (\<lambda>p. ctx_name ev (fst p)) g) \<Longrightarrow> (ident, x) \<in> set g \<Longrightarrow>
   written ev K g m (K @ [ctx_name ev ident]) = Some (File (nt_serialize ev (sort x)))"
proof (induction g arbitrary: m)
  case Nil
  then show ?case by simp
next
  case (Cons a g)
  obtain i' x' where a: "a = (i', x')" by (cases a)
  show ?case
  proof (cases "(ident, x) \<in> set g")
    case True
    with Cons a show ?thesis by simp
  next
    case False
    with Cons.prems a have e: "i' = ident" "x' = x" by auto
    from Cons.prems(1) a e have "\<forall>p \<in> set g. K @ [ctx_name ev ident] \<noteq> K @ [ctx_name ev (fst p)]"
      by (auto simp: image_iff)
    from written_other[OF this] a e show ?thesis by simp
  qed
qed

lemma serialize_contexts_ok:
  assumes "node_at fs (resolve fs gb) = Some Dir"
    and "distinct (map (\<lambda>p. ctx_name ev (fst p)) g)"
    and "\<forall>p \<in> set g. nodes fs (resolve fs gb @ [ctx_name ev (fst p)]) = None"
  shows "\<exists>files. serialize_contexts ev gb g (files0, cd0) fs =
     (Inr (files, cd0 @ map (\<lambda>p. (ctx_name ev (fst p), fst p)) g),
      fs\<lparr>nodes := written ev (resolve fs gb) g (nodes fs)\<rparr>)"
  using assms
proof (induction g arbitrary: files0 cd0 fs)
  case Nil
  then show ?case by simp
next
  case (Cons a g)
  obtain ident x where a: "a = (ident, x)" by (cases a)
  let ?K = "resolve fs gb"
  let ?n = "ctx_name ev ident"
  let ?fname = "pth_join gb ?n"
  let ?fs' = "fs\<lparr>nodes := (nodes fs)(?K @ [?n] \<mapsto> File (nt_serialize ev (sort x)))\<rparr>"
  note sn = ctx_name_simple[of ev ident]
  from Cons.prems(3) a have free: "nodes fs (?K @ [?n]) = None" by simp
  then have ne: "\<not> exists fs ?fname" by (simp add: exists_child[OF sn])
  have ow: "open_write fs ?fname (nt_serialize ev (sort x)) = Inr ?fs'"
    using open_write_child[OF sn Cons.prems(1)] free by simp
  have r': "resolve ?fs' gb = ?K" by (simp add: resolve_def)
  have p1: "node_at ?fs' (resolve ?fs' gb) = Some Dir"
    using Cons.prems(1) by (auto simp: r' node_at_def)
  have p2: "distinct (map (\<lambda>p. ctx_name ev (fst p)) g)" using Cons.prems(2) by simp
  have p3: "\<forall>p \<in> set g. nodes ?fs' (resolve ?fs' gb @ [ctx_name ev (fst p)]) = None"
    using Cons.prems(2,3) a by (auto simp: r' image_iff)
  from Cons.IH[OF p1 p2 p3, of "files0 @ [?fname]" "cd0 @ [(?n, ident)]"] obtain files where
    "serialize_contexts ev gb g (files0 @ [?fname], cd0 @ [(?n, ident)]) ?fs' =
       (Inr (files, (cd0 @ [(?n, ident)]) @ map (\<lambda>p. (ctx_name ev (fst p), fst p)) g),
        ?fs'\<lparr>nodes := written ev (resolve ?fs' gb) g (nodes ?fs')\<rparr>)"
    by blast
  then show ?case using a ne ow
    by (simp add: find_fname_eq hexdigest_def[symmetric] ctx_name_def[symmetric] relpath_child[OF sn] r')
qed

lemma prepare_graphs_dir:
  fixes self repo fs0
  defines "fs1 \<equiv> after_reset repo fs0"
  defines "gb \<equiv> pth_join (powdir self) ''graphs''"
  defines "K \<equiv> resolve fs1 gb"
  assumes tree: "tree_shaped fs1"
    and pd: "isdir fs1 (powdir self)"
    and gd: "isdir fs1 gb \<or> \<not> exists fs1 gb"
  shows "\<exists>fs2 fs3. (if exists fs1 gb then rmtree fs1 gb else Inr fs1) = Inr fs2
     \<and> mkdir fs2 gb = Inr fs3 \<and> cwd fs3 = cwd fs1
     \<and> K \<noteq> [] \<and> nodes fs3 K = Some Dir \<and> (\<forall>n. nodes fs3 (K @ [n]) = None)"
proof -
  define Kp where "Kp = resolve fs1 (powdir self)"
  have K: "K = Kp @ [''graphs'']"
    unfolding K_def gb_def Kp_def by (rule resolve_child[OF simple_graphs])
  have Kne: "K \<noteq> []" using K by simp
  define fs2 where "fs2 = (if exists fs1 gb
      then fs1\<lparr>nodes := (\<lambda>q. if take (length K) q = K then None else nodes fs1 q)\<rparr> else fs1)"
  have s1: "(if exists fs1 gb then rmtree fs1 gb else Inr fs1) = Inr fs2"
  proof (cases "exists fs1 gb")
    case True
    with gd have "node_at fs1 K = Some Dir" by (simp add: isdir_def K_def)
    with True show ?thesis by (simp add: rmtree_def fs2_def K_def[symmetric] Let_def)
  next
    case False
    then show ?thesis by (simp add: fs2_def)
  qed
  have c2: "cwd fs2 = cwd fs1" by (simp add: fs2_def)
  have below2: "nodes fs2 (K @ [n]) = None" for n
  proof (cases "exists fs1 gb")
    case True
    then show ?thesis by (simp add: fs2_def)
  next
    case False
    then have "node_at fs1 K = None" by (simp add: exists_def K_def)
    then have "node_at fs1 (butlast (K @ [n])) \<noteq> Some Dir" by simp
    with tree have "nodes fs1 (K @ [n]) = None" unfolding tree_shaped_def by blast
    with False show ?thesis by (simp add: fs2_def)
  qed
  have at2: "node_at fs2 K = None"
  proof (cases "exists fs1 gb")
    case True
    then show ?thesis using Kne by (simp add: fs2_def node_at_def)
  next
    case False
    then show ?thesis by (simp add: fs2_def exists_def K_def)
  qed
  have "length (take (length K) Kp) \<noteq> length K" using K by simp
  then have "take (length K) Kp \<noteq> K" by metis
  then have par2: "node_at fs2 Kp = Some Dir"
    using pd by (auto simp: fs2_def node_at_def isdir_def Kp_def)
  have r2: "resolve fs2 gb = K" using c2 by (simp add: resolve_def K_def)
  define fs3 where "fs3 = fs2\<lparr>nodes := (nodes fs2)(K \<mapsto> Dir)\<rparr>"
  have s2: "mkdir fs2 gb = Inr fs3"
    using at2 par2 by (simp add: mkdir_def r2 parent_error_def K fs3_def Let_def)
  have "cwd fs3 = cwd fs1" using c2 by (simp add: fs3_def)
  moreover have "nodes fs3 K = Some Dir" by (simp add: fs3_def)
  moreover have "\<forall>n. nodes fs3 (K @ [n]) = None" using below2 by (simp add: fs3_def)
  ultimately show ?thesis using s1 s2 Kne by blast
qed

lemma serialize_graphs_ok:
  fixes self ev repo g fs0
  defines "fs1 \<equiv> after_reset repo fs0"
  defines "gb \<equiv> pth_join (powdir self) ''graphs''"
  defines "K \<equiv> resolve fs1 gb"
  assumes tree: "tree_shaped fs1"
    and pd: "isdir fs1 (powdir self)"
    and gd: "isdir fs1 gb \<or> \<not> exists fs1 gb"
    and dist: "distinct (map (\<lambda>p. ctx_name ev (fst p)) g)"
  shows "\<exists>staged fs5. serialize_graphs self ev repo g fs0 = (Inr staged, fs5)
     \<and> cwd fs5 = cwd fs1
     \<and> nodes fs5 (K @ [''index'']) = Some (File (index_text ev g))
     \<and> (\<forall>p \<in> set g. nodes fs5 (K @ [ctx_name ev (fst p)]) = Some (File (nt_serialize ev (sort (snd p)))))"
proof -
  from prepare_graphs_dir[OF tree[unfolded fs1_def] pd[unfolded fs1_def] gd[unfolded fs1_def gb_def]]
  obtain fs2 fs3 where
    s1: "(if exists fs1 gb then rmtree fs1 gb else Inr fs1) = Inr fs2"
    and s2: "mkdir fs2 gb = Inr fs3" and c3: "cwd fs3 = cwd fs1"
    and Kne: "K \<noteq> []"
    and k3: "nodes fs3 K = Some Dir" and below3: "\<forall>n. nodes fs3 (K @ [n]) = None"
    unfolding fs1_def gb_def K_def by blast
  have r3: "resolve fs3 gb = K" using c3 by (simp add: resolve_def K_def)
  have d3: "node_at fs3 (resolve fs3 gb) = Some Dir" unfolding r3 using Kne k3 by (simp add: node_at_def)
  have free3: "\<forall>p \<in> set g. nodes fs3 (resolve fs3 gb @ [ctx_name ev (fst p)]) = None"
    unfolding r3 using below3 by simp
  define fs4 where "fs4 = fs3\<lparr>nodes := written ev K g (nodes fs3)\<rparr>"
  from serialize_contexts_ok[OF d3 dist free3, of "[]" "[]"] obtain files where
    s3: "serialize_contexts ev gb g ([], []) fs3 =
       (Inr (files, map (\<lambda>p. (ctx_name ev (fst p), fst p)) g), fs4)"
    by (auto simp: r3 fs4_def)
  have r4: "resolve fs4 gb = K" using r3 by (simp add: fs4_def)
  have "nodes fs4 K = nodes fs3 K" unfolding fs4_def by (simp add: written_other)
  then have d4: "node_at fs4 (resolve fs4 gb) = Some Dir" unfolding r4 using Kne k3 by (simp add: node_at_def)
  have "\<forall>p \<in> set g. K @ [''index''] \<noteq> K @ [ctx_name ev (fst p)]"
    using ctx_name_not_index by (metis append1_eq_conv)
  from written_other[OF this] have "nodes fs4 (K @ [''index'']) = nodes fs3 (K @ [''index''])"
    unfolding fs4_def by simp
  then have i4: "nodes fs4 (resolve fs4 gb @ [''index'']) \<noteq> Some Dir"
    unfolding r4 using below3 by simp
  define fs5 where "fs5 = fs4\<lparr>nodes := (nodes fs4)(K @ [''index''] \<mapsto> File (index_text ev g))\<rparr>"
  have s4: "open_write fs4 (pth_join gb ''index'') (index_text ev g) = Inr fs5"
    using open_write_child[OF simple_index d4 i4] by (simp add: r4 fs5_def)
  have res: "fst (serialize_graphs self ev repo g fs0) = Inr
        (map (\<lambda>f. relpath fs5 f (powdir self)) (files @ [pth_join gb ''index''])
           @ [relpath fs5 (config_file self) (powdir self), ''graphs''])"
    and res2: "snd (serialize_graphs self ev repo g fs0) = fs5"
    using s1 s2 s3 s4
    by (simp_all add: serialize_graphs_def gb_def[symmetric] fs1_def[symmetric, unfolded after_reset_def]
        index_text_def Let_def)
  have f5: "nodes fs5 (K @ [ctx_name ev (fst p)]) = Some (File (nt_serialize ev (sort (snd p))))"
    if "p \<in> set g" for p
  proof -
    from that have "(fst p, snd p) \<in> set g" by simp
    from written_at[OF dist this] show ?thesis
      using ctx_name_not_index by (simp add: fs5_def fs4_def)
  qed
  have "cwd fs5 = cwd fs1" using c3 by (simp add: fs5_def fs4_def)
  moreover have "nodes fs5 (K @ [''index'']) = Some (File (index_text ev g))" by (simp add: fs5_def)
  moreover have "serialize_graphs self ev repo g fs0 =
      (Inr (map (\<lambda>f. relpath fs5 f (powdir self)) (files @ [pth_join gb ''index''])
           @ [relpath fs5 (config_file self) (powdir self), ''graphs'']), fs5)"
    using res res2 by (simp add: prod_eq_iff)
  ultimately show ?thesis using f5 by blast
qed

lemma serialize_contexts_collision:
  assumes "node_at fs (resolve fs gb) = Some Dir"
    and "(\<exists>p \<in> set g. nodes fs (resolve fs gb @ [ctx_name ev (fst p)]) \<noteq> None)
         \<or> \<not> distinct (map (\<lambda>p. ctx_name ev (fst p)) g)"
  shows "\<exists>fs'. serialize_contexts ev gb g (files0, cd0) fs = (Inl TypeError, fs')"
  using assms
proof (induction g arbitrary: files0 cd0 fs)
  case Nil
  then show ?case by simp
next
  case (Cons a g)
  obtain ident x where a: "a = (ident, x)" by (cases a)
  let ?K = "resolve fs gb"
  let ?n = "ctx_name ev ident"
  let ?fname = "pth_join gb ?n"
  let ?fs' = "fs\<lparr>nodes := (nodes fs)(?K @ [?n] \<mapsto> File (nt_serialize ev (sort x)))\<rparr>"
  note sn = ctx_name_simple[of ev ident]
  show ?case
  proof (cases "nodes fs (?K @ [?n]) = None")
    case False
    then have "exists fs ?fname" by (simp add: exists_child[OF sn])
    then show ?thesis using a
      by (simp add: find_fname_eq hexdigest_def[symmetric] ctx_name_def[symmetric])
  next
    case True
    then have ne: "\<not> exists fs ?fname" by (simp add: exists_child[OF sn])
    have ow: "open_write fs ?fname (nt_serialize ev (sort x)) = Inr ?fs'"
      using open_write_child[OF sn Cons.prems(1)] True by simp
    have p1: "node_at ?fs' (resolve ?fs' gb) = Some Dir"
      using Cons.prems(1) by (auto simp: node_at_def)
    have p2: "(\<exists>p \<in> set g. nodes ?fs' (resolve ?fs' gb @ [ctx_name ev (fst p)]) \<noteq> None)
         \<or> \<not> distinct (map (\<lambda>p. ctx_name ev (fst p)) g)"
    proof (cases "\<exists>p \<in> set (a # g). nodes fs (?K @ [ctx_name ev (fst p)]) \<noteq> None")
      case ex: True
      then obtain p where p: "p \<in> set (a # g)" "nodes fs (?K @ [ctx_name ev (fst p)]) \<noteq> None" by blast
      with True a have "p \<in> set g" by auto
      with p(2) show ?thesis by auto
    next
      case False
      with Cons.prems(2) have nd: "\<not> distinct (map (\<lambda>p. ctx_name ev (fst p)) (a # g))" by blast
      show ?thesis
      proof (cases "distinct (map (\<lambda>p. ctx_name ev (fst p)) g)")
        case True
        with nd a obtain p where "p \<in> set g" "ctx_name ev (fst p) = ?n" by auto
        then show ?thesis by auto
      next
        case False
        then show ?thesis by simp
      qed
    qed
    from Cons.IH[OF p1 p2, of "files0 @ [?fname]" "cd0 @ [(?n, ident)]"] obtain fs'' where
      "serialize_contexts ev gb g (files0 @ [?fname], cd0 @ [(?n, ident)]) ?fs' = (Inl TypeError, fs'')"
      by blast
    then show ?thesis using a ne ow
      by (simp add: find_fname_eq hexdigest_def[symmetric] ctx_name_def[symmetric] relpath_child[OF sn])
  qed
qed

lemma distinct_ctx_name:
  "distinct (map (\<lambda>p. ctx_name ev (fst p)) g) = distinct (map (\<lambda>p. hexdigest (sha256 ev (fst p))) g)"
proof -
  have e: "map (\<lambda>p. ctx_name ev (fst p)) g =
      map (\<lambda>s. s @ ''.nt'') (map (\<lambda>p. hexdigest (sha256 ev (fst p))) g)"
    by (simp add: ctx_name_def)
  have "inj_on (\<lambda>s::string. s @ ''.nt'') A" for A by (simp add: inj_on_def)
  then have "distinct (map (\<lambda>s::string. s @ ''.nt'') xs) = distinct xs" for xs
    by (simp add: distinct_map)
  then show ?thesis unfolding e .
qed

lemma fresh_tree: "tree_shaped (after_reset clean_repo fresh_fs)"
  by (auto simp: tree_shaped_def after_reset_def clean_repo_def fresh_fs_def node_at_def split: if_splits)

lemma fresh_powdir: "isdir (after_reset clean_repo fresh_fs) (powdir default_pow)"
  by code_simp

lemma fresh_graphs: "\<not> exists (after_reset clean_repo fresh_fs) (pth_join (powdir default_pow) ''graphs'')"
  by code_simp

text \<open>
  Claim C2 fails on the code. When two contexts of the store have the same digest, the
  file of the second exists already; the loop that looks for a free name then adds the
  integer \<open>i\<close> to a string, and the serialisation ends with \<^verbatim>\<open>TypeError\<close>: no
  suffixed name is tried, the second context is not written and no index is written.
\<close>

theorem colliding_digests_raise_TypeError:
  assumes "\<not> distinct (map (\<lambda>p. hexdigest (sha256 ev (fst p))) g)"
    and "tree_shaped (after_reset repo fs0)"
    and "isdir (after_reset repo fs0) (powdir self)"
    and "isdir (after_reset repo fs0) (pth_join (powdir self) ''graphs'')
         \<or> \<not> exists (after_reset repo fs0) (pth_join (powdir self) ''graphs'')"
  shows "\<exists>fs'. serialize_graphs self ev repo g fs0 = (Inl TypeError, fs')"
proof -
  let ?fs1 = "after_reset repo fs0"
  let ?gb = "pth_join (powdir self) ''graphs''"
  let ?K = "resolve ?fs1 ?gb"
  from prepare_graphs_dir[OF assms(2,3,4)] obtain fs2 fs3 where
    s1: "(if exists ?fs1 ?gb then rmtree ?fs1 ?gb else Inr ?fs1) = Inr fs2"
    and s2: "mkdir fs2 ?gb = Inr fs3" and c3: "cwd fs3 = cwd ?fs1"
    and Kne: "?K \<noteq> []"
    and k3: "nodes fs3 ?K = Some Dir" and below3: "\<forall>n. nodes fs3 (?K @ [n]) = None"
    by blast
  have r3: "resolve fs3 ?gb = ?K" using c3 by (simp add: resolve_def)
  have d3: "node_at fs3 (resolve fs3 ?gb) = Some Dir" unfolding r3 using Kne k3 by (simp add: node_at_def)
  from assms(1) have "\<not> distinct (map (\<lambda>p. ctx_name ev (fst p)) g)" by (simp add: distinct_ctx_name)
  then have "(\<exists>p \<in> set g. nodes fs3 (resolve fs3 ?gb @ [ctx_name ev (fst p)]) \<noteq> None)
         \<or> \<not> distinct (map (\<lambda>p. ctx_name ev (fst p)) g)" by simp
  from serialize_contexts_collision[OF d3 this, of "[]" "[]"] obtain fs' where
    "serialize_contexts ev ?gb g ([], []) fs3 = (Inl TypeError, fs')" by blast
  with s1 s2 show ?thesis
    by (simp add: serialize_graphs_def after_reset_def[symmetric] Let_def)
qed

lemma colliding: "\<not> distinct (map (\<lambda>p. hexdigest (sha256 colliding_env (fst p))) two_contexts)"
  by code_simp

theorem colliding_digests_raise_TypeError_witness:
  "\<not> distinct (map (\<lambda>p. hexdigest (sha256 colliding_env (fst p))) two_contexts)
   \<and> tree_shaped (after_reset clean_repo fresh_fs)
   \<and> isdir (after_reset clean_repo fresh_fs) (powdir default_pow)
   \<and> \<not> exists (after_reset clean_repo fresh_fs) (pth_join (powdir default_pow) ''graphs'')
   \<and> (\<exists>fs'. serialize_graphs default_pow colliding_env clean_repo two_contexts fresh_fs = (Inl TypeError, fs'))"
proof -
  have h6: "isdir (after_reset clean_repo fresh_fs) (pth_join (powdir default_pow) ''graphs'')
      \<or> \<not> exists (after_reset clean_repo fresh_fs) (pth_join (powdir default_pow) ''graphs'')"
    using fresh_graphs by simp
  from colliding_digests_raise_TypeError [OF colliding fresh_tree fresh_powdir h6]
  show ?thesis using colliding fresh_tree fresh_powdir fresh_graphs by blast
qed

section \<open>Serialising and loading again\<close>

lemma lines_from_line:
  "CHR 0x0A \<notin> set l \<Longrightarrow> CHR 0x0D \<notin> set l \<Longrightarrow>
   lines_from acc (l @ CHR 0x0A # rest) = (rev acc @ l @ [CHR 0x0A]) # lines_from [] rest"
  by (induction l arbitrary: acc) auto

lemma readlines_concat:
  "\<forall>l \<in> set ls. CHR 0x0A \<notin> set l \<and> CHR 0x0D \<notin> set l \<Longrightarrow>
   readlines (concat (map (\<lambda>l. l @ [CHR 0x0A]) ls)) = map (\<lambda>l. l @ [CHR 0x0A]) ls"
  unfolding readlines_def
proof (induction ls)
  case Nil
  then show ?case by simp
next
  case (Cons l ls)
  then have "CHR 0x0A \<notin> set l" "CHR 0x0D \<notin> set l" by simp_all
  from lines_from_line[OF this, of "[]" "concat (map (\<lambda>l. l @ [CHR 0x0A]) ls)"] Cons
  show ?case by simp
qed

lemma isspace_LF: "isspace (CHR 0x0A)" and isspace_SP: "isspace CHR '' ''"
  by (simp_all add: isspace_def)

lemma strip_line:
  assumes "s \<noteq> []" "\<not> isspace (hd s)" "\<not> isspace (last s)"
  shows "strip (s @ [CHR 0x0A]) = s"
proof -
  from assms(1,2) have "dropWhile isspace (s @ [CHR 0x0A]) = s @ [CHR 0x0A]"
    by (cases s) auto
  moreover have "dropWhile isspace (CHR 0x0A # rev s) = rev s"
    using assms(1,3) isspace_LF by (cases "rev s") (auto simp: last_rev[symmetric] hd_rev)
  ultimately show ?thesis by (simp add: strip_def)
qed

lemma split_on_pair:
  "c \<notin> set a \<Longrightarrow> c \<notin> set b \<Longrightarrow> split_on c (a @ c # b) = [a, b]"
  by (simp add: split_on_append_sep split_on_no_sep)

lemma parse_index_line_index_line:
  assumes "a \<noteq> []" "\<not> isspace (hd a)" "CHR '' '' \<notin> set a" "index_safe b"
  shows "parse_index_line (index_line (a, b)) = Inr (a, b)"
proof -
  let ?s = "a @ CHR '' '' # b"
  from assms(4) have b: "b \<noteq> []" "CHR '' '' \<notin> set b" "\<not> isspace (last b)"
    by (simp_all add: index_safe_def)
  have "hd ?s = hd a" using assms(1) by simp
  then have h: "\<not> isspace (hd ?s)" using assms(2) by simp
  have "last ?s = last b" using b(1) by simp
  then have l: "\<not> isspace (last ?s)" using b(3) by simp
  have "index_line (a, b) = ?s @ [CHR 0x0A]" by (simp add: index_line_def)
  then have "strip (index_line (a, b)) = ?s" using strip_line[OF _ h l] by simp
  moreover have "split_on CHR '' '' ?s = [a, b]" using assms(3) b(2) by (rule split_on_pair)
  ultimately show ?thesis by (simp add: parse_index_line_def)
qed

lemma keys_add_triple: "fst ` set (add_triple c t st) = insert c (fst ` set st)"
proof (induction st)
  case Nil
  then show ?case by simp
next
  case (Cons a st)
  obtain c' ts where a: "a = (c', ts)" by (cases a)
  show ?case
  proof (cases "c = c'")
    case True
    with a show ?thesis by simp
  next
    case False
    with a Cons.IH show ?thesis by (simp add: insert_commute)
  qed
qed

lemma keys_addN: "fst ` set (addN qs st) = fst ` set st \<union> snd ` set qs"
proof (induction qs st rule: addN.induct)
  case (1 st)
  then show ?case by simp
next
  case (2 t c qs st)
  then show ?case by (simp add: keys_add_triple)
qed

lemma add_keys:
  assumes "batchsize bw \<noteq> 0" "add bw t st = Inr (bw', st')"
  shows "known bw' st' = insert (graph bw) (known bw st)"
proof (cases "count bw > 0 \<and> count bw mod batchsize bw = 0")
  case True
  with assms have "st' = addN (batch bw) st" "batch bw' = [(t, graph bw)]"
    by (auto simp: add_def Let_def)
  then show ?thesis by (simp add: known_def keys_addN Un_commute insert_commute)
next
  case False
  with assms have "st' = st" "batch bw' = batch bw @ [(t, graph bw)]"
    by (auto simp: add_def Let_def)
  then show ?thesis by (simp add: known_def)
qed

lemma feed_keys:
  assumes "batchsize bw \<noteq> 0" "feed bw ts st = (None, bw', st')"
  shows "known bw' st' = known bw st \<union> (if ts = [] then {} else {graph bw})"
  using assms
proof (induction ts arbitrary: bw st)
  case Nil
  then show ?case by simp
next
  case (Cons t ts)
  from add_ok[OF Cons.prems(1), of t st] obtain bw1 st1 where
    a: "add bw t st = Inr (bw1, st1)" "graph bw1 = graph bw" "batchsize bw1 = batchsize bw"
    by blast
  from a(3) Cons.prems(1) have nz: "batchsize bw1 \<noteq> 0" by simp
  from Cons.prems(2) a(1) have f: "feed bw1 ts st1 = (None, bw', st')" by simp
  from Cons.IH[OF nz f] add_keys[OF Cons.prems(1) a(1)] a(2) show ?case by auto
qed

lemma scope_keys:
  assumes "b \<noteq> 0" "feed (enter (BatchAddGraph c b)) ts st = (None, bw', st')"
  shows "fst ` set (exit bw' None st') = fst ` set st \<union> (if ts = [] then {} else {c})"
proof -
  let ?bw = "enter (BatchAddGraph c b)"
  have b: "batchsize ?bw \<noteq> 0" "graph ?bw = c" "batch ?bw = []"
    using assms(1) by (simp_all add: enter_def BatchAddGraph_def reset_def)
  from feed_keys[OF b(1) assms(2)] b(2,3) show ?thesis
    by (simp add: known_def exit_def keys_addN)
qed

lemma load_entries_ok:
  assumes "resolve fs (pth_join (powdir self) ''graphs'') = K"
    and "\<forall>e \<in> set E. entry_ok ev fs K g e"
  shows "\<exists>n' dest'. load_entries self ev fs (map index_line E) n dest = (Inr n', dest')
     \<and> (\<forall>c. triples_of dest' c = triples_of dest c \<union> (if c \<in> snd ` set E then triples_of g c else {}))
     \<and> fst ` set dest' = fst ` set dest \<union> {c \<in> snd ` set E. triples_of g c \<noteq> {}}"
  using assms(2)
proof (induction E arbitrary: n dest)
  case Nil
  then show ?case by simp
next
  case (Cons e E)
  obtain nm c where e: "e = (nm, c)" by (cases e)
  from Cons.prems e obtain x where
    x: "map_of g c = Some x" "nm = ctx_name ev c"
       "nodes fs (K @ [nm]) = Some (File (nt_serialize ev (sort x)))"
       "codec_ok ev x" "index_safe c"
    by (auto simp: entry_ok_def)
  let ?doc = "nt_serialize ev (sort x)"
  let ?ts = "fst (nt_parse ev ?doc)"
  have nm1: "nm \<noteq> []" using ctx_name_simple[of ev c] x(2) by (simp add: simple_name_def)
  then have "hd nm \<in> set nm" by simp
  then have nm2: "\<not> isspace (hd nm)" using ctx_name_chars(2)[of _ ev c] x(2) by blast
  have nm3: "CHR '' '' \<notin> set nm" using ctx_name_chars(3)[of _ ev c] x(2) by blast
  have p: "parse_index_line (index_line e) = Inr (nm, c)"
    unfolding e by (rule parse_index_line_index_line[OF nm1 nm2 nm3 x(5)])
  have sn: "simple_name nm" using x(2) ctx_name_simple by simp
  have o: "open_read fs (pth_join (pth_join (powdir self) ''graphs'') nm) = Inr ?doc"
    by (rule open_read_child[OF sn]) (simp add: assms(1) x(3))
  from x(4) have ok: "snd (nt_parse ev ?doc)" and ts: "set ?ts = set x" by (simp_all add: codec_ok_def)
  have "(4000::int) \<noteq> 0" by simp
  from scope_ok[OF this, of c ?ts dest] obtain bw' st' where
    f: "feed (enter (BatchAddGraph c 4000)) ?ts dest = (None, bw', st')"
    and t: "\<forall>c'. triples_of (exit bw' None st') c' = triples_of dest c' \<union> (if c' = c then set ?ts else {})"
    by blast
  have k: "fst ` set (exit bw' None st') = fst ` set dest \<union> (if ?ts = [] then {} else {c})"
    by (rule scope_keys[OF _ f]) simp
  have pi: "parse_into ev ?doc (enter (BatchAddGraph c 4000)) dest = (None, bw', st')"
    using f ok by (simp add: parse_into_def)
  from Cons.prems have "\<forall>e \<in> set E. entry_ok ev fs K g e" by simp
  from Cons.IH[OF this, of "n + count bw'" "exit bw' None st'"] obtain n' dest' where
    r: "load_entries self ev fs (map index_line E) (n + count bw') (exit bw' None st') = (Inr n', dest')"
    and rt: "\<forall>c'. triples_of dest' c' = triples_of (exit bw' None st') c' \<union>
                (if c' \<in> snd ` set E then triples_of g c' else {})"
    and rk: "fst ` set dest' = fst ` set (exit bw' None st') \<union> {c \<in> snd ` set E. triples_of g c \<noteq> {}}"
    by blast
  have gx: "triples_of g c = set x" using x(1) by (simp add: triples_of_def)
  have l: "load_entries self ev fs (map index_line (e # E)) n dest = (Inr n', dest')"
    using p o pi r by simp
  have tt: "triples_of dest' c' = triples_of dest c' \<union>
                (if c' \<in> snd ` set (e # E) then triples_of g c' else {})" for c'
    using rt t gx ts e by auto
  have "(?ts = []) = (set x = {})" using ts by auto
  then have kk: "fst ` set dest' = fst ` set dest \<union> {c \<in> snd ` set (e # E). triples_of g c \<noteq> {}}"
    using rk k gx e by auto
  from l tt kk show ?case by blast
qed

lemma index_text_lines:
  assumes "\<forall>p \<in> set g. index_safe (fst p)"
  shows "readlines (index_text ev g) =
     map index_line (sort (map (\<lambda>p. (ctx_name ev (fst p), fst p)) g))"
proof -
  let ?E = "sort (map (\<lambda>p. (ctx_name ev (fst p), fst p)) g)"
  let ?body = "\<lambda>e::string \<times> string. fst e @ CHR '' '' # snd e"
  have il: "index_line = (\<lambda>e. ?body e @ [CHR 0x0A])" by (simp add: index_line_def fun_eq_iff)
  have "CHR 0x0A \<notin> set (?body e) \<and> CHR 0x0D \<notin> set (?body e)" if "e \<in> set ?E" for e
  proof -
    from that obtain p where p: "p \<in> set g" "e = (ctx_name ev (fst p), fst p)" by auto
    from assms p(1) have "CHR 0x0A \<notin> set (fst p)" "CHR 0x0D \<notin> set (fst p)"
      by (simp_all add: index_safe_def)
    moreover have "CHR 0x0A \<notin> set (ctx_name ev (fst p))" using ctx_name_chars(4) by blast
    moreover have "CHR 0x0D \<notin> set (ctx_name ev (fst p))" using ctx_name_chars(5) by blast
    ultimately show ?thesis using p(2) by simp
  qed
  then have "\<forall>l \<in> set (map ?body ?E). CHR 0x0A \<notin> set l \<and> CHR 0x0D \<notin> set l" by auto
  from readlines_concat[OF this] show ?thesis
    by (simp add: index_text_def il comp_def)
qed

lemma load_into_fresh_database:
  assumes "body [] = (Inr n, st)"
  shows "\<exists>db. with_transaction body (fresh_database j) = (Inr n, db) \<and> graph_store db = st"
  using assms
  by (cases j) (simp_all add: with_transaction_def fresh_database_def tx_begin_def tx_abort_def
      tx_commit_def)

text \<open>
  Claim C3, as the code has it. Take a store in which every context identifier is what an
  index line gives back (not empty, without a space, a line feed or a carriage return,
  and not ending in whitespace), no two contexts have the same digest, and the N-Triples
  format round-trips on every context; and a working directory that exists, in a file
  system that is a tree, with \<^verbatim>\<open>graphs\<close> absent or a directory. Then serialising
  succeeds, loading what was written into an empty database succeeds, every context has
  the same set of triples afterwards as before, and the contexts of the loaded store are
  the contexts of the original that are not empty.
\<close>

theorem serialize_then_load_roundtrip:
  assumes ids: "\<forall>p \<in> set g. index_safe (fst p)"
    and dist: "distinct (map (\<lambda>p. hexdigest (sha256 ev (fst p))) g)"
    and codec: "\<forall>p \<in> set g. codec_ok ev (snd p)"
    and tree: "tree_shaped (after_reset repo fs0)"
    and pd: "isdir (after_reset repo fs0) (powdir self)"
    and gd: "isdir (after_reset repo fs0) (pth_join (powdir self) ''graphs'')
         \<or> \<not> exists (after_reset repo fs0) (pth_join (powdir self) ''graphs'')"
  shows "\<exists>staged fs' n db. serialize_graphs self ev repo g fs0 = (Inr staged, fs')
     \<and> load_all_graphs self ev fs' (fresh_database j) = (Inr n, db)
     \<and> (\<forall>c. triples_of (graph_store db) c = triples_of g c)
     \<and> fst ` set (graph_store db) = {c \<in> fst ` set g. triples_of g c \<noteq> {}}"
proof -
  let ?fs1 = "after_reset repo fs0"
  let ?gb = "pth_join (powdir self) ''graphs''"
  let ?K = "resolve ?fs1 ?gb"
  let ?E = "sort (map (\<lambda>p. (ctx_name ev (fst p), fst p)) g)"
  from dist have dn: "distinct (map (\<lambda>p. ctx_name ev (fst p)) g)" by (simp add: distinct_ctx_name)
  have "map (\<lambda>p. hexdigest (sha256 ev (fst p))) g = map (\<lambda>c. hexdigest (sha256 ev c)) (map fst g)"
    by simp
  with dist have di: "distinct (map fst g)" by (metis distinct_map)
  from serialize_graphs_ok[OF tree pd gd dn] obtain staged fs5 where
    s: "serialize_graphs self ev repo g fs0 = (Inr staged, fs5)"
    and c5: "cwd fs5 = cwd ?fs1"
    and i5: "nodes fs5 (?K @ [''index'']) = Some (File (index_text ev g))"
    and f5: "\<forall>p \<in> set g. nodes fs5 (?K @ [ctx_name ev (fst p)]) = Some (File (nt_serialize ev (sort (snd p))))"
    by blast
  have r5: "resolve fs5 ?gb = ?K" using c5 by (simp add: resolve_def)
  have ex: "exists fs5 (pth_join ?gb ''index'')"
    using i5 by (simp add: exists_child[OF simple_index] r5)
  have op: "open_read fs5 (pth_join ?gb ''index'') = Inr (index_text ev g)"
    by (rule open_read_child[OF simple_index]) (simp add: r5 i5)
  have eok: "\<forall>e \<in> set ?E. entry_ok ev fs5 ?K g e"
  proof
    fix e assume "e \<in> set ?E"
    then obtain p where p: "p \<in> set g" "e = (ctx_name ev (fst p), fst p)" by auto
    from p(1) have "(fst p, snd p) \<in> set g" by simp
    with di have "map_of g (fst p) = Some (snd p)" by (rule map_of_is_SomeI)
    with p f5 codec ids show "entry_ok ev fs5 ?K g e" by (auto simp: entry_ok_def)
  qed
  from load_entries_ok[OF r5 eok, of 0 "[]"] obtain n dest where
    l: "load_entries self ev fs5 (map index_line ?E) 0 [] = (Inr n, dest)"
    and t: "\<forall>c. triples_of dest c = triples_of [] c \<union> (if c \<in> snd ` set ?E then triples_of g c else {})"
    and k: "fst ` set dest = fst ` set ([]::store) \<union> {c \<in> snd ` set ?E. triples_of g c \<noteq> {}}"
    by blast
  have "snd ` set ?E = (\<lambda>p. snd (ctx_name ev (fst p), fst p)) ` set g" by (simp add: image_image)
  then have se: "snd ` set ?E = fst ` set g" by simp
  have "triples_of g c = {}" if "c \<notin> fst ` set g" for c
    using that by (simp add: triples_of_def map_of_eq_None_iff[THEN iffD2])
  with t se have tt: "\<forall>c. triples_of dest c = triples_of g c" by (auto simp: triples_of_def)
  from k se have kk: "fst ` set dest = {c \<in> fst ` set g. triples_of g c \<noteq> {}}" by simp
  from load_into_fresh_database[of "load_entries self ev fs5 (map index_line ?E) 0" n dest j] l
  obtain db where
    w: "with_transaction (load_entries self ev fs5 (map index_line ?E) 0) (fresh_database j) = (Inr n, db)"
    and gs: "graph_store db = dest" by blast
  have "load_all_graphs self ev fs5 (fresh_database j) = (Inr n, db)"
    using ex op w by (simp add: load_all_graphs_def index_text_lines[OF ids])
  with s tt kk gs show ?thesis by blast
qed

lemma two_safe: "index_safe (''http://b'' @ [CHR 0x09] @ ''c'') \<and> index_safe ''http://a''"
  by code_simp

lemma two_distinct: "distinct (map (\<lambda>p. hexdigest (sha256 toy_env (fst p))) tabbed_contexts)"
  by code_simp

lemma two_codec: "codec_ok toy_env [(''s'', ''p'', ''o''), (''s'', ''p'', ''a'')] \<and> codec_ok toy_env []"
  by code_simp

theorem serialize_then_load_roundtrip_witness:
  "index_safe (''http://b'' @ [CHR 0x09] @ ''c'') \<and> index_safe ''http://a''
   \<and> distinct (map (\<lambda>p. hexdigest (sha256 toy_env (fst p))) tabbed_contexts)
   \<and> codec_ok toy_env [(''s'', ''p'', ''o''), (''s'', ''p'', ''a'')] \<and> codec_ok toy_env []
   \<and> tree_shaped (after_reset clean_repo fresh_fs)
   \<and> isdir (after_reset clean_repo fresh_fs) (powdir default_pow)
   \<and> \<not> exists (after_reset clean_repo fresh_fs) (pth_join (powdir default_pow) ''graphs'')
   \<and> (\<exists>staged fs' n db.
         serialize_graphs default_pow toy_env clean_repo tabbed_contexts fresh_fs = (Inr staged, fs')
       \<and> load_all_graphs default_pow toy_env fs' (fresh_database True) = (Inr n, db)
       \<and> (\<forall>c. triples_of (graph_store db) c = triples_of tabbed_contexts c)
       \<and> fst ` set (graph_store db) = {c \<in> fst ` set tabbed_contexts. triples_of tabbed_contexts c \<noteq> {}})"
proof -
  have h1: "\<forall>p \<in> set tabbed_contexts. index_safe (fst p)"
    using two_safe by (simp add: tabbed_contexts_def)
  have h3: "\<forall>p \<in> set tabbed_contexts. codec_ok toy_env (snd p)"
    using two_codec by (simp add: tabbed_contexts_def)
  have h6: "isdir (after_reset clean_repo fresh_fs) (pth_join (powdir default_pow) ''graphs'')
      \<or> \<not> exists (after_reset clean_repo fresh_fs) (pth_join (powdir default_pow) ''graphs'')"
    using fresh_graphs by simp
  from serialize_then_load_roundtrip [OF h1 two_distinct h3 fresh_tree fresh_powdir h6, of True]
  show ?thesis using two_safe two_distinct two_codec fresh_tree fresh_powdir fresh_graphs by blast
qed

text \<open>
  Claim C3 as the specification states it fails, in three ways. A store whose only
  context has the identifier \<^verbatim>\<open>a b\<close> is serialised without error, and loading the
  result into an empty database raises \<^verbatim>\<open>ValueError\<close> on the index line, which has
  two spaces. A context whose identifier ends in a no-break space comes back under the
  identifier without it. And of a store with an empty context, the loaded store has the
  other context only: the set of context identifiers is not the same.
\<close>

theorem roundtrip_identifier_counterexample:
  "fst (serialize_graphs default_pow toy_env clean_repo spaced_context fresh_fs) =
     Inr [''graphs/612062.nt'', ''graphs/index'', ''pow.conf'', ''graphs'']
   \<and> load_all_graphs default_pow toy_env
       (snd (serialize_graphs default_pow toy_env clean_repo spaced_context fresh_fs))
       (fresh_database True) = (Inl ValueError, fresh_database True)
   \<and> load_all_graphs default_pow toy_env
       (snd (serialize_graphs default_pow toy_env clean_repo nbsp_context fresh_fs))
       (fresh_database True) =
     (Inr 1, \<lparr>graph_store = [(''http://x'', [(''s'', ''p'', ''o'')])],
              last_commit = [(''http://x'', [(''s'', ''p'', ''o'')])], joins_transaction = True\<rparr>)
   \<and> nbsp_context = [(''http://x'' @ [CHR 0xA0], [(''s'', ''p'', ''o'')])]
   \<and> load_all_graphs default_pow toy_env
       (snd (serialize_graphs default_pow toy_env clean_repo tabbed_contexts fresh_fs))
       (fresh_database True) =
     (Inr 2, \<lparr>graph_store = [(''http://b'' @ [CHR 0x09] @ ''c'', [(''s'', ''p'', ''o''), (''s'', ''p'', ''a'')])],
              last_commit = [(''http://b'' @ [CHR 0x09] @ ''c'', [(''s'', ''p'', ''o''), (''s'', ''p'', ''a'')])],
              joins_transaction = True\<rparr>)
   \<and> map fst tabbed_contexts = [''http://b'' @ [CHR 0x09] @ ''c'', ''http://a'']"
  by code_simp

end
